theory Spec2Isabelle
  imports Complex_Main "HOL-Library.AList" "HOL-Library.Sublist"
begin

section \<open>Data model\<close>

text \<open>
  The library (\<^verbatim>\<open>src/index.ts\<close>) renders a React element into a temporary container,
  strips and styles the resulting SVG, draws it on a canvas and encodes the canvas.
  The browser is the environment of the code.  Its objects are modelled as values:
  a DOM element is a node of a tree with an identity, its own data and its element
  children; a JavaScript string whose content matters is the list of its UTF-16 code
  units; a promise is one of its three fates.
\<close>

type_synonym jsstring = "nat list"

definition ascii :: "string \<Rightarrow> jsstring" where
  "ascii s = map of_char s"

datatype error =
    Error string
  | TypeError
  | SyntaxError
  | URIError
  | InvalidCharacterError
  | NotFoundError

datatype logged = Msg string | Err error

datatype 'a promise = Fulfilled 'a | RejectedP error | NeverSettles

text \<open>
  The data of one element: tag name, attributes, the resolved style that
  \<^verbatim>\<open>window.getComputedStyle\<close> reports for it (one entry per property, in the order of
  enumeration) and the declarations of its own \<^verbatim>\<open>style\<close> object.
\<close>

record elem =
  tag :: string
  attrs :: "(string \<times> string) list"
  computed :: "(string \<times> string) list"
  style :: "(string \<times> string) list"

datatype node = Node (nid: nat) (el: elem) (children: "node list")

fun ids :: "node \<Rightarrow> nat list" where
  "ids (Node i e cs) = i # concat (map ids cs)"

text \<open>
  Where an element stands in the document: one frame for each ancestor, nearest first.
  The frame of an ancestor holds the ancestor's data and the siblings before and after
  the child through which the path runs, subtrees included.  An element with its
  subtree and its frames is all of the document as seen from the element.
\<close>

datatype frame = Frame (frame_el: elem) (before: "node list") (after: "node list")

text \<open>
  The proper descendants of an element in document order, each with its frames.
  \<open>ctx\<close> holds the frames of the element itself; \<open>descendants_from\<close> walks a child list from
  left to right and carries the children already passed.
\<close>

fun descendants :: "frame list \<Rightarrow> node \<Rightarrow> (frame list \<times> node) list"
  and descendants_from :: "frame list \<Rightarrow> elem \<Rightarrow> node list \<Rightarrow> node list \<Rightarrow> (frame list \<times> node) list" where
  "descendants ctx (Node i e cs) = descendants_from ctx e [] cs"
| "descendants_from ctx e ls [] = []"
| "descendants_from ctx e ls (c # rs) =
     (Frame e ls rs # ctx, c) # descendants (Frame e ls rs # ctx) c @
     descendants_from ctx e (ls @ [c]) rs"

text \<open>
  A parsed selector decides a match from the element, its subtree and its frames, so
  that selectors which look at children (\<^verbatim>\<open>:empty\<close>, \<^verbatim>\<open>:has\<close>), at siblings
  (\<^verbatim>\<open>:first-child\<close>, \<^verbatim>\<open>+\<close>, \<^verbatim>\<open>~\<close>) or at ancestors are all covered.
  \<^verbatim>\<open>querySelectorAll\<close> returns the matching proper descendants in document order, as a
  static list; \<^verbatim>\<open>querySelector\<close> returns the first of them.
\<close>

type_synonym matcher = "frame list \<Rightarrow> node \<Rightarrow> bool"

definition querySelectorAll :: "matcher \<Rightarrow> frame list \<Rightarrow> node \<Rightarrow> (frame list \<times> node) list" where
  "querySelectorAll p ctx n = filter (\<lambda>(c, d). p c d) (descendants ctx n)"

definition querySelector :: "matcher \<Rightarrow> frame list \<Rightarrow> node \<Rightarrow> (frame list \<times> node) option" where
  "querySelector p ctx n =
     (case querySelectorAll p ctx n of [] \<Rightarrow> None | x # _ \<Rightarrow> Some x)"

section \<open>inlineStyles\<close>

text \<open>
  The loop over the computed style: every property is assigned to the target's style
  object, \<^verbatim>\<open>visibility\<close> is skipped.
\<close>

fun copy_styles :: "(string \<times> string) list \<Rightarrow> (string \<times> string) list \<Rightarrow> (string \<times> string) list" where
  "copy_styles [] st = st"
| "copy_styles ((k, v) # kvs) st =
     (if k = ''visibility'' then copy_styles kvs st
      else copy_styles kvs (AList.update k v st))"

text \<open>
  When the target has fewer children than the source, \<^verbatim>\<open>target.children[i]\<close> is
  \<^verbatim>\<open>undefined\<close>; the call on it raises a TypeError as soon as it reads \<^verbatim>\<open>target.style\<close> or
  \<^verbatim>\<open>target.children\<close>, that is when the source child has a property to copy or a child.
\<close>

definition touches_target :: "node \<Rightarrow> bool" where
  "touches_target s \<longleftrightarrow>
     (\<exists>kv \<in> set (computed (el s)). fst kv \<noteq> ''visibility'') \<or> children s \<noteq> []"

fun inlineStyles :: "node \<Rightarrow> node \<Rightarrow> error + node"
  and inline_children :: "node list \<Rightarrow> node list \<Rightarrow> error + node list" where
  "inlineStyles (Node si se scs) (Node ti te tcs) =
     (case inline_children scs tcs of
        Inl e \<Rightarrow> Inl e
      | Inr tcs' \<Rightarrow> Inr (Node ti (te\<lparr>style := copy_styles (computed se) (style te)\<rparr>) tcs'))"
| "inline_children [] ts = Inr ts"
| "inline_children (s # ss) [] =
     (if touches_target s then Inl TypeError else inline_children ss [])"
| "inline_children (s # ss) (t # ts) =
     (case inlineStyles s t of
        Inl e \<Rightarrow> Inl e
      | Inr t' \<Rightarrow> (case inline_children ss ts of
                    Inl e \<Rightarrow> Inl e
                  | Inr ts' \<Rightarrow> Inr (t' # ts')))"

fun same_shape :: "node \<Rightarrow> node \<Rightarrow> bool" where
  "same_shape (Node si se scs) (Node ti te tcs) = list_all2 same_shape scs tcs"

fun node_at :: "node \<Rightarrow> nat list \<Rightarrow> node option" where
  "node_at n [] = Some n"
| "node_at n (i # p) =
     (if i < length (children n) then node_at (children n ! i) p else None)"

text \<open>
  The effect of the traversal, position by position: at every path of the source the
  target node keeps its identity and its data, and its style is what the copy loop
  makes of the source node's computed style.
\<close>

definition inlined_at :: "node \<Rightarrow> node \<Rightarrow> node \<Rightarrow> bool" where
  "inlined_at s t t' \<longleftrightarrow>
     (\<forall>p sn. node_at s p = Some sn \<longrightarrow>
        (\<exists>tn tn'. node_at t p = Some tn \<and> node_at t' p = Some tn' \<and> nid tn' = nid tn \<and>
           el tn' = (el tn)\<lparr>style := copy_styles (computed (el sn)) (style (el tn))\<rparr>))"

section \<open>normaliseSvg\<close>

text \<open>
  \<^verbatim>\<open>els[i].parentNode?.removeChild(els[i])\<close>: the element with the given identity leaves the
  child list of its parent.  An element that sits in an already detached subtree is
  no longer in the tree, and the tree stays as it is.
\<close>

fun detach :: "nat \<Rightarrow> node \<Rightarrow> node" where
  "detach i (Node j e cs) = Node j e (map (detach i) (filter (\<lambda>c. nid c \<noteq> i) cs))"

text \<open>
  The platform parses a selector string; \<open>None\<close> is the SyntaxError of a string that
  is no selector.
\<close>

type_synonym selectors = "string \<Rightarrow> matcher option"

text \<open>
  The removal loop changes the tree in place, so a selector that does not parse leaves
  behind what the selectors before it removed: the result is the tree as it is at the
  end and the error, if one was thrown.
\<close>

fun normaliseSvg_removal :: "selectors \<Rightarrow> frame list \<Rightarrow> string list \<Rightarrow> node \<Rightarrow> node \<times> error option" where
  "normaliseSvg_removal M ctx [] svg = (svg, None)"
| "normaliseSvg_removal M ctx (s # ss) svg =
     (case M s of
        None \<Rightarrow> (svg, Some SyntaxError)
      | Some p \<Rightarrow>
          normaliseSvg_removal M ctx ss
            (fold detach (map (nid \<circ> snd) (querySelectorAll p ctx svg)) svg))"

text \<open>
  \<^verbatim>\<open>inlineStyles(svg, svg)\<close> runs on one tree as source and target; it cannot miss a
  target child there, so its error branch is never taken.
\<close>

definition normaliseSvg :: "selectors \<Rightarrow> frame list \<Rightarrow> node \<Rightarrow> string list \<Rightarrow> node \<times> error option" where
  "normaliseSvg M ctx svg ignoreAllSelectors =
     (case normaliseSvg_removal M ctx ignoreAllSelectors svg of
        (svg', Some e) \<Rightarrow> (svg', Some e)
      | (svg', None) \<Rightarrow>
          (case inlineStyles svg' svg' of
             Inl e \<Rightarrow> (svg', Some e)
           | Inr svg'' \<Rightarrow> (svg'', None)))"

text \<open>
  What one selector removes: evaluated on the tree as it stands, every child that
  matches is dropped with its subtree, at every level, and everything else is kept in
  order.  \<open>removal_steps\<close> does this for the selectors one after the other.
\<close>

fun prune :: "matcher \<Rightarrow> frame list \<Rightarrow> node \<Rightarrow> node"
  and prune_from :: "matcher \<Rightarrow> frame list \<Rightarrow> elem \<Rightarrow> node list \<Rightarrow> node list \<Rightarrow> node list" where
  "prune p ctx (Node i e cs) = Node i e (prune_from p ctx e [] cs)"
| "prune_from p ctx e ls [] = []"
| "prune_from p ctx e ls (c # rs) =
     (if p (Frame e ls rs # ctx) c then [] else [prune p (Frame e ls rs # ctx) c]) @
     prune_from p ctx e (ls @ [c]) rs"

definition selector_matches :: "selectors \<Rightarrow> string \<Rightarrow> matcher" where
  "selector_matches M s c d = (case M s of None \<Rightarrow> False | Some p \<Rightarrow> p c d)"

fun removal_steps :: "selectors \<Rightarrow> frame list \<Rightarrow> string list \<Rightarrow> node \<Rightarrow> node" where
  "removal_steps M ctx [] svg = svg"
| "removal_steps M ctx (s # ss) svg = removal_steps M ctx ss (prune (selector_matches M s) ctx svg)"

text \<open>
  A selector that reads nothing but the data of the element and the data of its
  ancestors: type, attribute and class selectors and their descendant and child
  combinations.
\<close>

definition ancestral :: "matcher \<Rightarrow> bool" where
  "ancestral p \<longleftrightarrow>
     (\<forall>c d c' d'. map frame_el c = map frame_el c' \<and> el d = el d' \<longrightarrow> p c d = p c' d')"

text \<open>
  For such selectors the walk needs the data only: the descendants with the data of
  their ancestors, and the tree pruned by a predicate on data.
\<close>

type_synonym data_matcher = "elem list \<Rightarrow> elem \<Rightarrow> bool"

fun descendants_data :: "elem list \<Rightarrow> node \<Rightarrow> (elem list \<times> node) list" where
  "descendants_data es (Node i e cs) =
     concat (map (\<lambda>c. (e # es, c) # descendants_data (e # es) c) cs)"

fun prune_data :: "data_matcher \<Rightarrow> elem list \<Rightarrow> node \<Rightarrow> node" where
  "prune_data q es (Node i e cs) =
     Node i e (map (prune_data q (e # es)) (filter (\<lambda>c. \<not> q (e # es) (el c)) cs))"

definition on_data :: "matcher \<Rightarrow> data_matcher" where
  "on_data p es e = p (map (\<lambda>x. Frame x [] []) es) (Node 0 e [])"

definition any_data :: "selectors \<Rightarrow> string list \<Rightarrow> data_matcher" where
  "any_data M S es e \<longleftrightarrow> (\<exists>s \<in> set S. on_data (selector_matches M s) es e)"

text \<open>The tree after a whole set of identities has been detached.\<close>

fun detach_all :: "nat set \<Rightarrow> node \<Rightarrow> node" where
  "detach_all I (Node j e cs) = Node j e (map (detach_all I) (filter (\<lambda>c. nid c \<notin> I) cs))"

unbundle bit_operations_syntax

section \<open>uuidv4\<close>

text \<open>
  \<^verbatim>\<open>([1e7] + -1e3 + -4e3 + -8e3 + -1e11)\<close> is the string
  \<^verbatim>\<open>10000000-1000-4000-8000-100000000000\<close>.  Each of its characters 0, 1 and 8 is replaced
  by the hexadecimal digit of \<^verbatim>\<open>c ^ (r & (15 >> (c / 4)))\<close>, where \<open>r\<close> is a fresh random
  byte.  \<open>rnd k\<close> is the byte that the \<open>k\<close>-th call of \<^verbatim>\<open>crypto.getRandomValues\<close> yields.
\<close>

definition hex_lower :: "nat \<Rightarrow> char" where
  "hex_lower n = char_of (if n < 10 then 48 + n else 87 + n)"

definition digit_of :: "char \<Rightarrow> nat" where
  "digit_of c = of_char c - 48"

fun uuid_replace :: "(nat \<Rightarrow> nat) \<Rightarrow> nat \<Rightarrow> string \<Rightarrow> string" where
  "uuid_replace rnd k [] = []"
| "uuid_replace rnd k (c # cs) =
     (if c \<in> set ''018''
      then hex_lower (digit_of c XOR (rnd k AND drop_bit (digit_of c div 4) 15)) #
           uuid_replace rnd (Suc k) cs
      else c # uuid_replace rnd k cs)"

definition uuidv4 :: "(nat \<Rightarrow> nat) \<Rightarrow> string" where
  "uuidv4 rnd = uuid_replace rnd 0 ''10000000-1000-4000-8000-100000000000''"

section \<open>The temporary container\<close>

definition INJECTOR_CONTAINER_ATTRIBUTE :: string where
  "INJECTOR_CONTAINER_ATTRIBUTE = ''data-react-svg-image-injector-container''"

text \<open>
  \<^verbatim>\<open>getInjectorContainer\<close>: a new \<^verbatim>\<open>div\<close>, marked with the run's identifier, hidden and
  positioned, appended to the root.  \<open>fresh\<close> is the identity that
  \<^verbatim>\<open>document.createElement\<close> gives the new element.  The result is the root after the
  call and the container.  The computed style of the container is never read.
\<close>

definition getInjectorContainer :: "node \<Rightarrow> string \<Rightarrow> nat \<Rightarrow> node \<times> node" where
  "getInjectorContainer injectorRoot renderId fresh =
     (let injectorContainer =
        Node fresh
          \<lparr>tag = ''div'',
           attrs = [(''data-react-svg-image-injector-container'', renderId)],
           computed = [],
           style = [(''visibility'', ''hidden''), (''position'', ''absolute''),
                    (''top'', ''0''), (''left'', ''0'')]\<rparr> []
      in (Node (nid injectorRoot) (el injectorRoot) (children injectorRoot @ [injectorContainer]),
          injectorContainer))"

text \<open>
  \<^verbatim>\<open>removeInjectorContainer\<close> splices the identifier into the text of an attribute
  selector, between double quotes, and hands the text to the platform.  For an
  identifier without quotes, backslashes and line breaks the selector means
  \<open>marker_is\<close>: the attribute is present with exactly that value.
\<close>

definition marker_selector :: "string \<Rightarrow> string" where
  "marker_selector renderId =
     ''['' @ INJECTOR_CONTAINER_ATTRIBUTE @ [CHR ''='', CHR 0x22] @ renderId @ [CHR 0x22, CHR '']'']"

definition marker_is :: "string \<Rightarrow> matcher" where
  "marker_is renderId c d \<longleftrightarrow>
     map_of (attrs (el d)) INJECTOR_CONTAINER_ATTRIBUTE = Some renderId"

text \<open>\<^verbatim>\<open>parent.removeChild(child)\<close> raises NotFoundError when the node is not a child of the parent.\<close>

definition removeChild :: "node \<Rightarrow> node \<Rightarrow> error + node" where
  "removeChild parent child =
     (if nid child \<in> set (map nid (children parent))
      then Inr (Node (nid parent) (el parent) (filter (\<lambda>c. nid c \<noteq> nid child) (children parent)))
      else Inl NotFoundError)"

text \<open>
  \<open>M\<close> is the selector parser of the platform and \<open>ctx\<close> holds the frames of the root.
  The result is the root after the call and what was written to the console.
\<close>

definition removeInjectorContainer :: "selectors \<Rightarrow> frame list \<Rightarrow> node \<Rightarrow> string \<Rightarrow>
    error + node \<times> logged list" where
  "removeInjectorContainer M ctx injectorRoot renderId =
     (case M (marker_selector renderId) of
        None \<Rightarrow> Inl SyntaxError
      | Some p \<Rightarrow>
          (case querySelector p ctx injectorRoot of
             Some (c, injectorContainer) \<Rightarrow>
               (case removeChild injectorRoot injectorContainer of
                  Inl e \<Rightarrow> Inl e
                | Inr r \<Rightarrow> Inr (r, []))
           | None \<Rightarrow>
               Inr (injectorRoot, [Msg (''Could not find injector container with id '' @ renderId)])))"

section \<open>The image source: encodeURIComponent, unescape, btoa\<close>

text \<open>
  \<^verbatim>\<open>copyToCanvas\<close> builds the source of the image as
  \<^verbatim>\<open>"data:image/svg+xml;base64," + btoa(unescape(encodeURIComponent(svgData)))\<close>.
  The three built-ins are modelled after ECMA-262 (\<^verbatim>\<open>encodeURIComponent\<close>, and
  \<^verbatim>\<open>unescape\<close> of Annex B) and the HTML standard (\<^verbatim>\<open>btoa\<close>), on strings as lists of
  UTF-16 code units.  Characters are written by their numbers: 37 is the percent sign,
  117 the letter u, 61 the equals sign.
\<close>

definition is_high_surrogate :: "nat \<Rightarrow> bool" where
  "is_high_surrogate u \<longleftrightarrow> 55296 \<le> u \<and> u \<le> 56319"

definition is_low_surrogate :: "nat \<Rightarrow> bool" where
  "is_low_surrogate u \<longleftrightarrow> 56320 \<le> u \<and> u \<le> 57343"

definition surrogate_pair :: "nat \<Rightarrow> nat \<Rightarrow> nat" where
  "surrogate_pair h l = 65536 + (h - 55296) * 1024 + (l - 56320)"

definition utf8_encode_cp :: "nat \<Rightarrow> nat list" where
  "utf8_encode_cp cp =
     (if cp < 128 then [cp]
      else if cp < 2048 then [192 + cp div 64, 128 + cp mod 64]
      else if cp < 65536 then [224 + cp div 4096, 128 + cp div 64 mod 64, 128 + cp mod 64]
      else [240 + cp div 262144, 128 + cp div 4096 mod 64, 128 + cp div 64 mod 64, 128 + cp mod 64])"

definition hex_upper :: "nat \<Rightarrow> nat" where
  "hex_upper n = (if n < 10 then 48 + n else 55 + n)"

definition percent_octet :: "nat \<Rightarrow> jsstring" where
  "percent_octet b = [37, hex_upper (b div 16), hex_upper (b mod 16)]"

definition uri_unescaped :: "nat \<Rightarrow> bool" where
  "uri_unescaped u \<longleftrightarrow>
     (65 \<le> u \<and> u \<le> 90) \<or> (97 \<le> u \<and> u \<le> 122) \<or> (48 \<le> u \<and> u \<le> 57) \<or>
     u \<in> set (ascii ''-_.!~*'()'')"

fun encodeURIComponent :: "jsstring \<Rightarrow> error + jsstring" where
  "encodeURIComponent [] = Inr []"
| "encodeURIComponent (u # us) =
     (if uri_unescaped u then
        (case encodeURIComponent us of Inl e \<Rightarrow> Inl e | Inr r \<Rightarrow> Inr (u # r))
      else if is_high_surrogate u then
        (case us of
           [] \<Rightarrow> Inl URIError
         | l # rest \<Rightarrow>
             if is_low_surrogate l then
               (case encodeURIComponent rest of
                  Inl e \<Rightarrow> Inl e
                | Inr r \<Rightarrow> Inr (concat (map percent_octet (utf8_encode_cp (surrogate_pair u l))) @ r))
             else Inl URIError)
      else if is_low_surrogate u then Inl URIError
      else
        (case encodeURIComponent us of
           Inl e \<Rightarrow> Inl e
         | Inr r \<Rightarrow> Inr (concat (map percent_octet (utf8_encode_cp u)) @ r)))"

definition is_hex :: "nat \<Rightarrow> bool" where
  "is_hex c \<longleftrightarrow> (48 \<le> c \<and> c \<le> 57) \<or> (65 \<le> c \<and> c \<le> 70) \<or> (97 \<le> c \<and> c \<le> 102)"

definition digit_value :: "nat \<Rightarrow> nat" where
  "digit_value c = (if c \<le> 57 then c - 48 else if c \<le> 70 then c - 55 else c - 87)"

definition hex_value :: "jsstring \<Rightarrow> nat" where
  "hex_value ds = foldl (\<lambda>a d. 16 * a + digit_value d) 0 ds"

fun unescape :: "jsstring \<Rightarrow> jsstring" where
  "unescape [] = []"
| "unescape (c # cs) =
     (if c = 37 \<and> 5 \<le> length cs \<and> hd cs = 117 then
        (if list_all is_hex (take 4 (tl cs))
         then hex_value (take 4 (tl cs)) # unescape (drop 5 cs)
         else c # unescape cs)
      else if c = 37 \<and> 2 \<le> length cs \<and> list_all is_hex (take 2 cs)
        then hex_value (take 2 cs) # unescape (drop 2 cs)
      else c # unescape cs)"

definition b64 :: "nat \<Rightarrow> nat" where
  "b64 n = (if n < 26 then 65 + n else if n < 52 then 71 + n else if n < 62 then n - 4
            else if n = 62 then 43 else 47)"

fun base64_encode :: "nat list \<Rightarrow> jsstring" where
  "base64_encode [] = []"
| "base64_encode [a] = [b64 (a div 4), b64 (a mod 4 * 16), 61, 61]"
| "base64_encode [a, b] = [b64 (a div 4), b64 (a mod 4 * 16 + b div 16), b64 (b mod 16 * 4), 61]"
| "base64_encode (a # b # c # bs) =
     b64 (a div 4) # b64 (a mod 4 * 16 + b div 16) # b64 (b mod 16 * 4 + c div 64) # b64 (c mod 64) #
     base64_encode bs"

definition btoa :: "jsstring \<Rightarrow> error + jsstring" where
  "btoa s = (if \<exists>c \<in> set s. 255 < c then Inl InvalidCharacterError else Inr (base64_encode s))"

definition image_src :: "jsstring \<Rightarrow> error + jsstring" where
  "image_src svgData =
     (case encodeURIComponent svgData of
        Inl e \<Rightarrow> Inl e
      | Inr escaped \<Rightarrow>
          (case btoa (unescape escaped) of
             Inl e \<Rightarrow> Inl e
           | Inr b \<Rightarrow> Inr (ascii ''data:image/svg+xml;base64,'' @ b)))"

text \<open>
  The decoders against which the payload is read back: UTF-16 code units to code points
  (\<open>None\<close> for an unpaired surrogate or a number that is no code unit), code points
  back to code units, base64 with padding, and UTF-8 with the checks for continuation
  bytes, overlong forms, surrogates and range.
\<close>

fun code_points :: "jsstring \<Rightarrow> nat list option" where
  "code_points [] = Some []"
| "code_points (u # us) =
     (if 65536 \<le> u then None
      else if is_high_surrogate u then
        (case us of
           [] \<Rightarrow> None
         | l # rest \<Rightarrow>
             if is_low_surrogate l
             then map_option ((#) (surrogate_pair u l)) (code_points rest)
             else None)
      else if is_low_surrogate u then None
      else map_option ((#) u) (code_points us))"

definition utf16_encode_cp :: "nat \<Rightarrow> jsstring" where
  "utf16_encode_cp cp =
     (if cp < 65536 then [cp]
      else [55296 + (cp - 65536) div 1024, 56320 + (cp - 65536) mod 1024])"

definition b64_value :: "nat \<Rightarrow> nat option" where
  "b64_value c =
     (if 65 \<le> c \<and> c \<le> 90 then Some (c - 65)
      else if 97 \<le> c \<and> c \<le> 122 then Some (c - 71)
      else if 48 \<le> c \<and> c \<le> 57 then Some (c + 4)
      else if c = 43 then Some 62
      else if c = 47 then Some 63
      else None)"

fun base64_decode :: "jsstring \<Rightarrow> nat list option" where
  "base64_decode [] = Some []"
| "base64_decode (a # b # c # d # cs) =
     (case (b64_value a, b64_value b) of
        (Some x, Some y) \<Rightarrow>
          if c = 61 \<and> d = 61 \<and> cs = [] then Some [x * 4 + y div 16]
          else (case b64_value c of
                  None \<Rightarrow> None
                | Some z \<Rightarrow>
                    if d = 61 \<and> cs = [] then Some [x * 4 + y div 16, y mod 16 * 16 + z div 4]
                    else (case b64_value d of
                            None \<Rightarrow> None
                          | Some w \<Rightarrow>
                              map_option
                                (\<lambda>r. (x * 4 + y div 16) # (y mod 16 * 16 + z div 4) # (z mod 4 * 64 + w) # r)
                                (base64_decode cs)))
      | _ \<Rightarrow> None)"
| "base64_decode _ = None"

definition continuation :: "nat \<Rightarrow> bool" where
  "continuation b \<longleftrightarrow> 128 \<le> b \<and> b < 192"

text \<open>The code point that starts with byte \<open>b\<close>, and how many of the following bytes belong to it.\<close>

definition utf8_decode_cp :: "nat \<Rightarrow> nat list \<Rightarrow> (nat \<times> nat) option" where
  "utf8_decode_cp b bs =
     (if b < 128 then Some (b, 0)
      else if 192 \<le> b \<and> b < 224 then
        (case bs of
           b1 # r \<Rightarrow>
             (let cp = (b - 192) * 64 + (b1 - 128)
              in if continuation b1 \<and> 128 \<le> cp then Some (cp, 1) else None)
         | _ \<Rightarrow> None)
      else if 224 \<le> b \<and> b < 240 then
        (case bs of
           b1 # b2 # r \<Rightarrow>
             (let cp = (b - 224) * 4096 + (b1 - 128) * 64 + (b2 - 128)
              in if continuation b1 \<and> continuation b2 \<and> 2048 \<le> cp \<and>
                    \<not> (55296 \<le> cp \<and> cp \<le> 57343)
                 then Some (cp, 2) else None)
         | _ \<Rightarrow> None)
      else if 240 \<le> b \<and> b < 248 then
        (case bs of
           b1 # b2 # b3 # r \<Rightarrow>
             (let cp = (b - 240) * 262144 + (b1 - 128) * 4096 + (b2 - 128) * 64 + (b3 - 128)
              in if continuation b1 \<and> continuation b2 \<and> continuation b3 \<and>
                    65536 \<le> cp \<and> cp \<le> 1114111
                 then Some (cp, 3) else None)
         | _ \<Rightarrow> None)
      else None)"

fun utf8_decode :: "nat list \<Rightarrow> nat list option" where
  "utf8_decode [] = Some []"
| "utf8_decode (b # bs) =
     (case utf8_decode_cp b bs of
        None \<Rightarrow> None
      | Some (cp, n) \<Rightarrow> map_option ((#) cp) (utf8_decode (drop n bs)))"

definition valid_cp :: "nat \<Rightarrow> bool" where
  "valid_cp cp \<longleftrightarrow> cp < 1114112 \<and> \<not> (55296 \<le> cp \<and> cp \<le> 57343)"

section \<open>copyToCanvas\<close>

text \<open>
  A JavaScript number is a double.  A finite double is modelled by the real it stands
  for, and the product of two doubles is the exact product rounded to the nearest
  double, ties to the even significand of 53 bits.  The exponent range is not
  modelled: there is no overflow to infinity, no gradual underflow and no NaN, so
  \<open>to_double\<close> is the rounding of IEEE 754 for magnitudes from \<open>2\<^sup>-\<^sup>1\<^sup>0\<^sup>2\<^sup>2\<close> up to \<open>2\<^sup>1\<^sup>0\<^sup>2\<^sup>4\<close>.
\<close>

definition round_even :: "real \<Rightarrow> int" where
  "round_even q =
     (let f = \<lfloor>q\<rfloor>
      in if q - of_int f < 1 / 2 then f
         else if 1 / 2 < q - of_int f then f + 1
         else if even f then f else f + 1)"

definition to_double :: "real \<Rightarrow> real" where
  "to_double x =
     (if x = 0 then 0
      else (let e = \<lfloor>log 2 \<bar>x\<bar>\<rfloor> - 52
            in of_int (round_even (x / 2 powr of_int e)) * 2 powr of_int e))"

definition fmul :: "real \<Rightarrow> real \<Rightarrow> real" where
  "fmul x y = to_double (x * y)"

text \<open>
  Assigning a number to \<^verbatim>\<open>canvas.width\<close> converts it to the IDL type
  \<^verbatim>\<open>unsigned long\<close>: the number is truncated towards zero and reduced modulo \<open>2\<^sup>3\<^sup>2\<close>; a
  reflected attribute outside \<open>0 \<dots> 2\<^sup>3\<^sup>1 - 1\<close> takes its default, 300 for the width and
  150 for the height.
\<close>

definition to_unsigned_long :: "real \<Rightarrow> nat" where
  "to_unsigned_long x = nat ((if x < 0 then - \<lfloor>- x\<rfloor> else \<lfloor>x\<rfloor>) mod 4294967296)"

definition canvas_dimension :: "nat \<Rightarrow> real \<Rightarrow> nat" where
  "canvas_dimension dflt x =
     (let n = to_unsigned_long x in if 2147483647 < n then dflt else n)"

datatype css_length = Px real

record canvas =
  width :: nat
  height :: nat
  style_width :: "css_length option"
  style_height :: "css_length option"
  ctxt_scale :: "real \<times> real"
  drawn :: "jsstring option"

datatype blob = Blob string "nat list"

datatype artifact = Str jsstring | BlobValue blob

type_synonym jsx = string

text \<open>
  What the browser and the caller contribute to one run: the registered renderer
  (\<open>None\<close> before \<^verbatim>\<open>setDomRenderer\<close>), which either mounts element children into the
  container, rejects, or never settles; the random bytes, in the order of the calls of
  \<^verbatim>\<open>crypto.getRandomValues\<close>; the identity of the
  element that \<^verbatim>\<open>document.createElement("div")\<close> creates; the selector parser; the XML
  serializer; the bounding box (width and height); whether \<^verbatim>\<open>getContext("2d")\<close> gives a
  context; whether an image with a given source loads; and the two canvas encoders.
\<close>

record env =
  renderAsPromise :: "(jsx \<Rightarrow> node \<Rightarrow> node list promise) option"
  getRandomValues :: "nat \<Rightarrow> nat"
  createElement :: nat
  parse_selector :: selectors
  serializeToString :: "node \<Rightarrow> jsstring"
  getBoundingClientRect :: "node \<Rightarrow> real \<times> real"
  getContext :: bool
  decodes :: "jsstring \<Rightarrow> bool"
  toDataURL :: "canvas \<Rightarrow> string \<Rightarrow> real \<Rightarrow> jsstring"
  toBlob :: "canvas \<Rightarrow> string \<Rightarrow> real \<Rightarrow> blob option"

text \<open>
  \<^verbatim>\<open>copyToCanvas\<close> is not an async function: it throws (\<open>Inl\<close>) or returns a promise.
  The promise has a resolver only, called from \<^verbatim>\<open>img.onload\<close>; no handler is installed for
  a failed load, so the promise of an image that does not load never settles.
\<close>

definition copyToCanvas :: "env \<Rightarrow> node \<Rightarrow> real \<Rightarrow> error + canvas promise" where
  "copyToCanvas env source scale =
     (let svgData = serializeToString env source;
          svgSize = getBoundingClientRect env source;
          canvas = \<lparr>width = canvas_dimension 300 (fmul (fst svgSize) scale),
                    height = canvas_dimension 150 (fmul (snd svgSize) scale),
                    style_width = Some (Px (fst svgSize)),
                    style_height = Some (Px (snd svgSize)),
                    ctxt_scale = (1, 1),
                    drawn = None\<rparr>
      in if \<not> getContext env then Inl (Error ''Could not get canvas context'')
         else
           (case image_src svgData of
              Inl e \<Rightarrow> Inl e
            | Inr src \<Rightarrow>
                if decodes env src
                then Inr (Fulfilled (canvas\<lparr>ctxt_scale := (scale, scale), drawn := Some src\<rparr>))
                else Inr NeverSettles))"

section \<open>toOutput\<close>

definition toOutput :: "env \<Rightarrow> canvas \<Rightarrow> string \<Rightarrow> string \<Rightarrow> real \<Rightarrow> artifact promise" where
  "toOutput env canvas output format quality =
     (if output = ''data_url''
      then Fulfilled (Str (toDataURL env canvas (''image/'' @ format) quality))
      else
        (case toBlob env canvas (''image/'' @ format) quality of
           None \<Rightarrow> RejectedP (Error ''Could not convert canvas to blob'')
         | Some b \<Rightarrow> Fulfilled (BlobValue b)))"

section \<open>renderSvgAsImage\<close>

definition ImageFormat :: "string list" where
  "ImageFormat = [''png'', ''jpeg'', ''webp'']"

definition ImageOutput :: "string list" where
  "ImageOutput = [''data_url'', ''blob'']"

text \<open>The options object as the caller passes it, and its fields after the defaults of the parameter pattern.\<close>

record RenderSvgAsImageOptions =
  opt_format :: "string option"
  opt_output :: "string option"
  opt_injectSelector :: "string option"
  opt_ignoreAllSelectors :: "string list option"
  opt_scale :: "real option"
  opt_quality :: "real option"
  opt_throwErrors :: "bool option"

record options =
  format :: string
  injectSelector :: string
  output_kind :: string
  scale :: real
  quality :: real
  throwErrors :: bool
  ignoreAllSelectors :: "string list"

definition with_defaults :: "RenderSvgAsImageOptions \<Rightarrow> options" where
  "with_defaults r =
     \<lparr>format = (case opt_format r of None \<Rightarrow> ''png'' | Some v \<Rightarrow> v),
      injectSelector = (case opt_injectSelector r of None \<Rightarrow> ''body'' | Some v \<Rightarrow> v),
      output_kind = (case opt_output r of None \<Rightarrow> ''data_url'' | Some v \<Rightarrow> v),
      scale = (case opt_scale r of None \<Rightarrow> 1 | Some v \<Rightarrow> v),
      quality = (case opt_quality r of None \<Rightarrow> 97 / 100 | Some v \<Rightarrow> v),
      throwErrors = (case opt_throwErrors r of None \<Rightarrow> True | Some v \<Rightarrow> v),
      ignoreAllSelectors = (case opt_ignoreAllSelectors r of None \<Rightarrow> [] | Some v \<Rightarrow> v)\<rparr>"

text \<open>
  The second parameter is a destructuring pattern without a default of its own: binding
  it to \<^verbatim>\<open>undefined\<close> raises a TypeError before the body is entered.
\<close>

definition destructure :: "RenderSvgAsImageOptions option \<Rightarrow> error + options" where
  "destructure arg = (case arg of None \<Rightarrow> Inl TypeError | Some r \<Rightarrow> Inr (with_defaults r))"

text \<open>
  How a block of the async function ends: it returns a value, it throws, or it waits
  for ever on a promise that never settles.
\<close>

datatype 'a completion = Return 'a | Throw error | Hang

fun replace_node :: "nat \<Rightarrow> node \<Rightarrow> node \<Rightarrow> node" where
  "replace_node i n (Node j e cs) = (if j = i then n else Node j e (map (replace_node i n) cs))"

definition svg_tag :: matcher where
  "svg_tag c d \<longleftrightarrow> tag (el d) = ''svg''"

text \<open>
  The steps after \<^verbatim>\<open>normaliseSvg\<close>, on the injector root as it is then.  \<^verbatim>\<open>toOutput\<close> is
  called and not awaited: its promise is the value that the block returns, after the
  container has been removed.
\<close>

definition rasterise :: "env \<Rightarrow> options \<Rightarrow> string \<Rightarrow> frame list \<Rightarrow> node \<Rightarrow> node \<Rightarrow>
    node \<times> logged list \<times> artifact promise completion" where
  "rasterise env opts renderId ctx injectorRoot svg =
     (case copyToCanvas env svg (scale opts) of
        Inl e \<Rightarrow> (injectorRoot, [], Throw e)
      | Inr NeverSettles \<Rightarrow> (injectorRoot, [], Hang)
      | Inr (RejectedP e) \<Rightarrow> (injectorRoot, [], Throw e)
      | Inr (Fulfilled canvas) \<Rightarrow>
          (let returnValue = toOutput env canvas (output_kind opts) (format opts) (quality opts)
           in case removeInjectorContainer (parse_selector env) ctx injectorRoot renderId of
                Inl e \<Rightarrow> (injectorRoot, [], Throw e)
              | Inr (root', l) \<Rightarrow> (root', l, Return returnValue)))"

text \<open>
  The steps from the creation of the container on.  \<open>ctx\<close> holds the frames of the
  injector root; the container is its last child.  The result is the injector root at
  the end, the console output and the completion.
\<close>

definition with_container :: "env \<Rightarrow> jsx \<Rightarrow> options \<Rightarrow> (jsx \<Rightarrow> node \<Rightarrow> node list promise) \<Rightarrow>
    string \<Rightarrow> frame list \<Rightarrow> node \<Rightarrow> node \<times> logged list \<times> artifact promise completion" where
  "with_container env element opts render renderId ctx injectorRoot =
     (let (root1, injectorContainer) = getInjectorContainer injectorRoot renderId (createElement env)
      in case render element injectorContainer of
           RejectedP e \<Rightarrow>
             (case removeInjectorContainer (parse_selector env) ctx root1 renderId of
                Inl e' \<Rightarrow> (root1, [], Throw e')
              | Inr (root2, l) \<Rightarrow> (root2, l @ [Msg ''Failed to render element''], Throw e))
         | NeverSettles \<Rightarrow> (root1, [], Hang)
         | Fulfilled content \<Rightarrow>
             (let mounted = Node (nid injectorContainer) (el injectorContainer) content;
                  root2 = Node (nid injectorRoot) (el injectorRoot) (children injectorRoot @ [mounted])
              in case querySelector svg_tag
                        (Frame (el injectorRoot) (children injectorRoot) [] # ctx) mounted of
                   None \<Rightarrow>
                     (case removeInjectorContainer (parse_selector env) ctx root2 renderId of
                        Inl e' \<Rightarrow> (root2, [], Throw e')
                      | Inr (root3, l) \<Rightarrow> (root3, l, Throw (Error ''Could not find a rendered SVG'')))
                 | Some (sctx, renderedSvg) \<Rightarrow>
                     (case normaliseSvg (parse_selector env) sctx renderedSvg (ignoreAllSelectors opts) of
                        (svg, Some e) \<Rightarrow> (replace_node (nid renderedSvg) svg root2, [], Throw e)
                      | (svg, None) \<Rightarrow>
                          rasterise env opts renderId ctx
                            (replace_node (nid renderedSvg) svg root2) svg)))"

text \<open>
  The body of the outer \<^verbatim>\<open>try\<close>.  The document is the tree under the document node;
  \<^verbatim>\<open>document.querySelector\<close> searches its elements.  The run changes the document only
  under the injector root.
\<close>

definition try_block :: "env \<Rightarrow> node \<Rightarrow> jsx \<Rightarrow> options \<Rightarrow>
    node \<times> logged list \<times> artifact promise completion" where
  "try_block env doc element opts =
     (case renderAsPromise env of
        None \<Rightarrow>
          (doc, [], Throw (Error ''You must call setDomRenderer before calling renderSvgAsImage''))
      | Some render \<Rightarrow>
          (let renderId = uuidv4 (getRandomValues env)
           in case parse_selector env (injectSelector opts) of
                None \<Rightarrow> (doc, [], Throw SyntaxError)
              | Some p \<Rightarrow>
                  (case querySelector p [] doc of
                     None \<Rightarrow> (doc, [], Throw (Error ''Could not find element with selector null''))
                   | Some (ctx, injectorRoot) \<Rightarrow>
                       if format opts \<notin> set ImageFormat
                       then (doc, [], Throw (Error (''Invalid image format '' @ format opts)))
                       else if output_kind opts \<notin> set ImageOutput
                       then (doc, [], Throw (Error (''Invalid image output '' @ output_kind opts)))
                       else
                         (case with_container env element opts render renderId ctx injectorRoot of
                            (root', l, c) \<Rightarrow> (replace_node (nid injectorRoot) root' doc, l, c)))))"

record result =
  document :: node
  console :: "logged list"
  returned :: "artifact promise"

text \<open>
  The whole function.  A promise returned from the \<^verbatim>\<open>try\<close> block is adopted as it is: its
  rejection does not pass through the \<^verbatim>\<open>catch\<close> clause.
\<close>

definition renderSvgAsImage :: "env \<Rightarrow> node \<Rightarrow> jsx \<Rightarrow> RenderSvgAsImageOptions option \<Rightarrow> result" where
  "renderSvgAsImage env doc element arg =
     (case destructure arg of
        Inl e \<Rightarrow> \<lparr>document = doc, console = [], returned = RejectedP e\<rparr>
      | Inr opts \<Rightarrow>
          (case try_block env doc element opts of
             (doc', l, Return p) \<Rightarrow> \<lparr>document = doc', console = l, returned = p\<rparr>
           | (doc', l, Hang) \<Rightarrow> \<lparr>document = doc', console = l, returned = NeverSettles\<rparr>
           | (doc', l, Throw e) \<Rightarrow>
               if throwErrors opts
               then \<lparr>document = doc', console = l, returned = RejectedP e\<rparr>
               else \<lparr>document = doc', console = l @ [Err e], returned = Fulfilled (Str [])\<rparr>))"

section \<open>Sample inputs\<close>

definition demo_source :: node where
  "demo_source =
     Node 1 \<lparr>tag = ''svg'', attrs = [], computed = [(''fill'', ''red''), (''visibility'', ''hidden'')], style = []\<rparr>
       [Node 2 \<lparr>tag = ''circle'', attrs = [], computed = [(''visibility'', ''hidden''), (''stroke'', ''black'')], style = []\<rparr> []]"

definition demo_target :: node where
  "demo_target =
     Node 3 \<lparr>tag = ''svg'', attrs = [], computed = [], style = [(''visibility'', ''visible'')]\<rparr>
       [Node 4 \<lparr>tag = ''circle'', attrs = [], computed = [], style = []\<rparr> []]"

text \<open>
  A platform with a small selector language: the empty string is no selector;
  \<^verbatim>\<open>g:empty\<close> matches a \<^verbatim>\<open>g\<close> element without children; the attribute selector on the
  marker, with a quoted value free of quotes, matches the elements that carry the
  value; every other string is a type selector.
\<close>

fun strip_prefix :: "string \<Rightarrow> string \<Rightarrow> string option" where
  "strip_prefix [] s = Some s"
| "strip_prefix (p # ps) [] = None"
| "strip_prefix (p # ps) (c # cs) = (if p = c then strip_prefix ps cs else None)"

definition demo_selector :: selectors where
  "demo_selector s =
     (if s = [] then None
      else if s = ''g:empty'' then Some (\<lambda>c d. tag (el d) = ''g'' \<and> children d = [])
      else
        (case strip_prefix (''['' @ INJECTOR_CONTAINER_ATTRIBUTE @ [CHR ''='', CHR 0x22]) s of
           None \<Rightarrow> Some (\<lambda>c d. tag (el d) = s)
         | Some rest \<Rightarrow>
             (case strip_prefix [CHR '']'', CHR 0x22] (rev rest) of
                None \<Rightarrow> None
              | Some v \<Rightarrow> if CHR 0x22 \<in> set v then None else Some (marker_is (rev v)))))"

definition plain :: "string \<Rightarrow> elem" where
  "plain t = \<lparr>tag = t, attrs = [], computed = [], style = []\<rparr>"

definition demo_svg :: node where
  "demo_svg = Node 1 (plain ''svg'') [Node 2 (plain ''g'') [Node 3 (plain ''circle'') []], Node 4 (plain ''defs'') []]"




text \<open>
  A small document and a browser for it: every random byte is 0, the renderer mounts
  an \<^verbatim>\<open>svg\<close> with one circle, the bounding box is 100.5 by 50, every image loads and both
  encoders succeed.
\<close>

definition demo_doc_with :: "node list \<Rightarrow> node" where
  "demo_doc_with cs = Node 0 (plain ''#document'') [Node 1 (plain ''html'') [Node 2 (plain ''body'') cs]]"

definition demo_doc :: node where
  "demo_doc = demo_doc_with []"

definition demo_container :: "node list \<Rightarrow> node" where
  "demo_container content =
     Node 10
       \<lparr>tag = ''div'',
        attrs = [(''data-react-svg-image-injector-container'', ''10000000-1000-4000-8000-100000000000'')],
        computed = [],
        style = [(''visibility'', ''hidden''), (''position'', ''absolute''),
                 (''top'', ''0''), (''left'', ''0'')]\<rparr> content"

definition demo_styled :: node where
  "demo_styled =
     Node 20 \<lparr>tag = ''svg'', attrs = [], computed = [(''visibility'', ''hidden''), (''fill'', ''red'')],
              style = [(''fill'', ''red'')]\<rparr>
       [Node 21 (plain ''circle'') []]"

definition demo_rendered :: node where
  "demo_rendered =
     Node 20 \<lparr>tag = ''svg'', attrs = [], computed = [(''visibility'', ''hidden''), (''fill'', ''red'')],
              style = []\<rparr>
       [Node 21 (plain ''circle'') []]"

definition demo_env :: env where
  "demo_env =
     \<lparr>renderAsPromise = Some (\<lambda>element container. Fulfilled [demo_rendered]),
      getRandomValues = (\<lambda>k. 0),
      createElement = 10,
      parse_selector = demo_selector,
      serializeToString = (\<lambda>n. ascii ''<svg/>''),
      getBoundingClientRect = (\<lambda>n. (201 / 2, 50)),
      getContext = True,
      decodes = (\<lambda>src. True),
      toDataURL = (\<lambda>c t q. ascii (''data:'' @ t @ '';base64,AAAA'')),
      toBlob = (\<lambda>c t q. Some (Blob t [0]))\<rparr>"

definition no_options :: RenderSvgAsImageOptions where
  "no_options =
     \<lparr>opt_format = None, opt_output = None, opt_injectSelector = None,
      opt_ignoreAllSelectors = None, opt_scale = None, opt_quality = None,
      opt_throwErrors = None\<rparr>"

section \<open>Properties of inlineStyles\<close>

section \<open>Properties of inlineStyles\<close>

lemma copy_styles_visibility:
  "map_of (copy_styles kvs st) ''visibility'' = map_of st ''visibility''"
  by (induction kvs st rule: copy_styles.induct) (auto simp: update_conv')

lemma copy_styles_other:
  "k \<notin> fst ` set kvs \<Longrightarrow> map_of (copy_styles kvs st) k = map_of st k"
  by (induction kvs st rule: copy_styles.induct) (auto simp: update_conv')

lemma copy_styles_copied:
  "distinct (map fst kvs) \<Longrightarrow> (k, v) \<in> set kvs \<Longrightarrow> k \<noteq> ''visibility'' \<Longrightarrow>
   map_of (copy_styles kvs st) k = Some v"
proof (induction kvs st rule: copy_styles.induct)
  case (1 st)
  then show ?case by simp
next
  case (2 k' v' kvs st)
  show ?case
  proof (cases "k' = k")
    case True
    with 2 have "v' = v" by (auto simp: image_iff)
    moreover from True 2 have "k \<notin> fst ` set kvs" by auto
    ultimately show ?thesis using True 2(5)
      by (simp add: copy_styles_other update_conv')
  next
    case False
    with 2 show ?thesis by auto
  qed
qed

lemma inlined_at_Node:
  assumes "length scs = length tcs" "length tcs' = length tcs"
    and "\<forall>i < length scs. inlined_at (scs ! i) (tcs ! i) (tcs' ! i)"
  shows "inlined_at (Node si se scs) (Node ti te tcs)
           (Node ti (te\<lparr>style := copy_styles (computed se) (style te)\<rparr>) tcs')"
  unfolding inlined_at_def
proof (intro allI impI)
  fix p sn
  assume a: "node_at (Node si se scs) p = Some sn"
  show "\<exists>tn tn'. node_at (Node ti te tcs) p = Some tn \<and>
          node_at (Node ti (te\<lparr>style := copy_styles (computed se) (style te)\<rparr>) tcs') p = Some tn' \<and>
          nid tn' = nid tn \<and>
          el tn' = (el tn)\<lparr>style := copy_styles (computed (el sn)) (style (el tn))\<rparr>"
  proof (cases p)
    case Nil
    with a show ?thesis by auto
  next
    case (Cons i q)
    with a have i: "i < length scs" and q: "node_at (scs ! i) q = Some sn"
      by (auto split: if_splits)
    from assms(3) i q show ?thesis
      using assms(1,2) Cons unfolding inlined_at_def by auto
  qed
qed

lemma inlineStyles_congruent:
  "same_shape s t \<longrightarrow> (\<exists>t'. inlineStyles s t = Inr t' \<and> same_shape s t' \<and> inlined_at s t t')"
  "list_all2 same_shape ss ts \<longrightarrow>
     (\<exists>ts'. inline_children ss ts = Inr ts' \<and> list_all2 same_shape ss ts' \<and>
        (\<forall>i < length ss. inlined_at (ss ! i) (ts ! i) (ts' ! i)))"
proof (induction s t and ss ts rule: inlineStyles_inline_children.induct)
  case (1 si se scs ti te tcs)
  show ?case
  proof
    assume "same_shape (Node si se scs) (Node ti te tcs)"
    then have c: "list_all2 same_shape scs tcs" by simp
    with 1 obtain tcs' where t: "inline_children scs tcs = Inr tcs'"
      "list_all2 same_shape scs tcs'"
      "\<forall>i < length scs. inlined_at (scs ! i) (tcs ! i) (tcs' ! i)" by blast
    from c t(2) have l: "length scs = length tcs" "length tcs' = length tcs"
      using list_all2_lengthD [OF c] list_all2_lengthD [OF t(2)] by simp_all
    show "\<exists>t'. inlineStyles (Node si se scs) (Node ti te tcs) = Inr t' \<and>
            same_shape (Node si se scs) t' \<and> inlined_at (Node si se scs) (Node ti te tcs) t'"
      using t inlined_at_Node [OF l t(3)] by simp
  qed
next
  case (2 ts)
  show ?case by simp
next
  case (3 s ss)
  show ?case by simp
next
  case (4 s ss t ts)
  show ?case
  proof
    assume "list_all2 same_shape (s # ss) (t # ts)"
    then have c: "same_shape s t" "list_all2 same_shape ss ts" by simp_all
    from 4(1) c(1) obtain t' where t': "inlineStyles s t = Inr t'" "same_shape s t'"
      "inlined_at s t t'" by blast
    from 4(2) [OF t'(1)] c(2) obtain ts' where ts': "inline_children ss ts = Inr ts'"
      "list_all2 same_shape ss ts'"
      "\<forall>i < length ss. inlined_at (ss ! i) (ts ! i) (ts' ! i)" by blast
    have "\<forall>i < length (s # ss). inlined_at ((s # ss) ! i) ((t # ts) ! i) ((t' # ts') ! i)"
      using t'(3) ts'(3) by (auto simp: nth_Cons split: nat.splits)
    then show "\<exists>ts'. inline_children (s # ss) (t # ts) = Inr ts' \<and>
            list_all2 same_shape (s # ss) ts' \<and>
            (\<forall>i < length (s # ss). inlined_at ((s # ss) ! i) ((t # ts) ! i) (ts' ! i))"
      using t' ts' by simp
  qed
qed

text \<open>
  Claim C5.  For source and target trees of the same shape \<^const>\<open>inlineStyles\<close> succeeds
  and keeps the shape.  At every position the target node keeps its identity, receives
  every computed property of the source node at that position except
  \<^verbatim>\<open>visibility\<close> (the computed style lists each property once), keeps every
  declaration the source has no property for, and its \<^verbatim>\<open>visibility\<close> declaration is
  what it was before the call: the property is never written.
\<close>

theorem inlineStyles_copies_all_but_visibility:
  assumes "same_shape s t"
  shows "\<exists>t'. inlineStyles s t = Inr t' \<and> same_shape s t' \<and>
    (\<forall>p sn. node_at s p = Some sn \<longrightarrow>
       (\<exists>tn tn'. node_at t p = Some tn \<and> node_at t' p = Some tn' \<and> nid tn' = nid tn \<and>
          map_of (style (el tn')) ''visibility'' = map_of (style (el tn)) ''visibility'' \<and>
          (distinct (map fst (computed (el sn))) \<longrightarrow>
             (\<forall>k v. (k, v) \<in> set (computed (el sn)) \<longrightarrow> k \<noteq> ''visibility'' \<longrightarrow>
                map_of (style (el tn')) k = Some v)) \<and>
          (\<forall>k. k \<notin> fst ` set (computed (el sn)) \<longrightarrow>
             map_of (style (el tn')) k = map_of (style (el tn)) k)))"
proof -
  from assms inlineStyles_congruent(1) obtain t' where
    t': "inlineStyles s t = Inr t'" "same_shape s t'" "inlined_at s t t'" by blast
  have "\<exists>tn tn'. node_at t p = Some tn \<and> node_at t' p = Some tn' \<and> nid tn' = nid tn \<and>
          map_of (style (el tn')) ''visibility'' = map_of (style (el tn)) ''visibility'' \<and>
          (distinct (map fst (computed (el sn))) \<longrightarrow>
             (\<forall>k v. (k, v) \<in> set (computed (el sn)) \<longrightarrow> k \<noteq> ''visibility'' \<longrightarrow>
                map_of (style (el tn')) k = Some v)) \<and>
          (\<forall>k. k \<notin> fst ` set (computed (el sn)) \<longrightarrow>
             map_of (style (el tn')) k = map_of (style (el tn)) k)"
    if "node_at s p = Some sn" for p sn
  proof -
    from t'(3) that obtain tn tn' where
      n: "node_at t p = Some tn" "node_at t' p = Some tn'" "nid tn' = nid tn"
        "el tn' = (el tn)\<lparr>style := copy_styles (computed (el sn)) (style (el tn))\<rparr>"
      unfolding inlined_at_def by blast
    from n(4) have st: "style (el tn') = copy_styles (computed (el sn)) (style (el tn))"
      by simp
    show ?thesis
      by (rule exI [of _ tn], rule exI [of _ tn'])
        (simp add: n(1-3) st copy_styles_visibility copy_styles_other copy_styles_copied)
  qed
  with t'(1,2) show ?thesis by blast
qed

theorem inlineStyles_copies_all_but_visibility_witness:
  "same_shape demo_source demo_target \<and>
   (\<exists>t'. inlineStyles demo_source demo_target = Inr t' \<and>
      (\<exists>tn'. node_at t' [0] = Some tn' \<and> nid tn' = 4 \<and>
         map_of (style (el tn')) ''visibility'' = None \<and>
         map_of (style (el tn')) ''stroke'' = Some ''black''))"
proof -
  have h: "same_shape demo_source demo_target"
    by (simp add: demo_source_def demo_target_def)
  have p: "node_at demo_source [0] =
      Some (Node 2 \<lparr>tag = ''circle'', attrs = [],
        computed = [(''visibility'', ''hidden''), (''stroke'', ''black'')], style = []\<rparr> [])"
    by (simp add: demo_source_def)
  have q: "node_at demo_target [0] =
      Some (Node 4 \<lparr>tag = ''circle'', attrs = [], computed = [], style = []\<rparr> [])"
    by (simp add: demo_target_def)
  from inlineStyles_copies_all_but_visibility [OF h] obtain t' where
    t': "inlineStyles demo_source demo_target = Inr t'"
    and a: "\<And>p sn. node_at demo_source p = Some sn \<Longrightarrow>
       (\<exists>tn tn'. node_at demo_target p = Some tn \<and> node_at t' p = Some tn' \<and> nid tn' = nid tn \<and>
          map_of (style (el tn')) ''visibility'' = map_of (style (el tn)) ''visibility'' \<and>
          (distinct (map fst (computed (el sn))) \<longrightarrow>
             (\<forall>k v. (k, v) \<in> set (computed (el sn)) \<longrightarrow> k \<noteq> ''visibility'' \<longrightarrow>
                map_of (style (el tn')) k = Some v)) \<and>
          (\<forall>k. k \<notin> fst ` set (computed (el sn)) \<longrightarrow>
             map_of (style (el tn')) k = map_of (style (el tn)) k))"
    by blast
  from a [OF p] q obtain tn' where
    "node_at t' [0] = Some tn'" "nid tn' = 4"
    "map_of (style (el tn')) ''visibility'' = None"
    "map_of (style (el tn')) ''stroke'' = Some ''black''"
    by auto
  with h t' show ?thesis by blast
qed

section \<open>Properties of the removal phase\<close>

text \<open>
  The loop over the static result of \<^verbatim>\<open>querySelectorAll\<close> detaches a set of identities;
  where identities are unique this drops exactly the children that match in the tree as it
  was when the selector was evaluated, level by level.
\<close>

lemma nid_detach_all [simp]: "nid (detach_all I n) = nid n"
  by (cases n) simp

lemma detach_all_empty [simp]: "detach_all {} n = n"
  by (induction n) (simp add: map_idI)

lemma detach_detach_all: "detach i (detach_all I n) = detach_all (insert i I) n"
proof (induction n)
  case (Node j e cs)
  have "filter (\<lambda>c. nid c \<noteq> i) (map (detach_all I) (filter (\<lambda>c. nid c \<notin> I) cs)) =
        map (detach_all I) (filter (\<lambda>c. nid c \<notin> insert i I) cs)"
    by (induction cs) auto
  with Node show ?case by (simp add: comp_def)
qed

lemma fold_detach: "fold detach xs (detach_all I n) = detach_all (I \<union> set xs) n"
  by (induction xs arbitrary: I) (simp_all add: detach_detach_all)

lemma fold_detach_all: "fold detach xs n = detach_all (set xs) n"
  using fold_detach [of xs "{}" n] by simp

lemma ids_descendants:
  "ids n = nid n # map (nid \<circ> snd) (descendants ctx n)"
  "concat (map ids rs) = map (nid \<circ> snd) (descendants_from ctx e ls rs)"
proof (induction ctx n and ctx e ls rs rule: descendants_descendants_from.induct)
  case (1 ctx i e cs)
  then show ?case by simp
next
  case (2 ctx e ls)
  show ?case by simp
next
  case (3 ctx e ls c rs)
  then show ?case by simp
qed

lemma descendants_inj:
  assumes "distinct (ids n)" "(c, d) \<in> set (descendants ctx n)"
    "(c', d') \<in> set (descendants ctx n)" "nid d = nid d'"
  shows "c = c' \<and> d = d'"
proof -
  from assms(1) have "distinct (map (nid \<circ> snd) (descendants ctx n))"
    by (simp add: ids_descendants(1) [of n ctx])
  then have "inj_on (nid \<circ> snd) (set (descendants ctx n))"
    by (simp add: distinct_map)
  moreover have "(nid \<circ> snd) (c, d) = (nid \<circ> snd) (c', d')"
    using assms(4) by simp
  ultimately have "(c, d) = (c', d')"
    using assms(2,3) by (rule inj_onD)
  then show ?thesis by simp
qed

lemma detach_all_prune:
  "(\<forall>x \<in> set (descendants ctx n). nid (snd x) \<in> I \<longleftrightarrow> p (fst x) (snd x)) \<longrightarrow>
     detach_all I n = prune p ctx n"
  "(\<forall>x \<in> set (descendants_from ctx e ls rs). nid (snd x) \<in> I \<longleftrightarrow> p (fst x) (snd x)) \<longrightarrow>
     map (detach_all I) (filter (\<lambda>c. nid c \<notin> I) rs) = prune_from p ctx e ls rs"
proof (induction p ctx n and p ctx e ls rs rule: prune_prune_from.induct)
  case (1 p ctx i e cs)
  then show ?case by simp
next
  case (2 p ctx e ls)
  show ?case by simp
next
  case (3 p ctx e ls c rs)
  show ?case
  proof
    assume a: "\<forall>x \<in> set (descendants_from ctx e ls (c # rs)). nid (snd x) \<in> I \<longleftrightarrow> p (fst x) (snd x)"
    then have h: "nid c \<in> I \<longleftrightarrow> p (Frame e ls rs # ctx) c" by simp
    from a have r: "map (detach_all I) (filter (\<lambda>c. nid c \<notin> I) rs) = prune_from p ctx e (ls @ [c]) rs"
      using 3(2) by simp
    show "map (detach_all I) (filter (\<lambda>c. nid c \<notin> I) (c # rs)) = prune_from p ctx e ls (c # rs)"
    proof (cases "p (Frame e ls rs # ctx) c")
      case True
      with h r show ?thesis by simp
    next
      case False
      from a have "detach_all I c = prune p (Frame e ls rs # ctx) c"
        using 3(1) [OF False] by simp
      with False h r show ?thesis by simp
    qed
  qed
qed

lemma removal_loop_prune:
  assumes "distinct (ids n)"
  shows "fold detach (map (nid \<circ> snd) (querySelectorAll p ctx n)) n = prune p ctx n"
proof -
  let ?I = "set (map (nid \<circ> snd) (querySelectorAll p ctx n))"
  have "nid (snd x) \<in> ?I \<longleftrightarrow> p (fst x) (snd x)" if x: "x \<in> set (descendants ctx n)" for x
  proof
    obtain c d where cd: "x = (c, d)" by (cases x)
    assume "nid (snd x) \<in> ?I"
    then obtain c' d' where m: "(c', d') \<in> set (descendants ctx n)" "p c' d'" "nid d = nid d'"
      unfolding cd by (auto simp: querySelectorAll_def)
    from x cd have "(c, d) \<in> set (descendants ctx n)" by simp
    from descendants_inj [OF assms this m(1,3)] m(2) show "p (fst x) (snd x)"
      by (simp add: cd)
  next
    assume "p (fst x) (snd x)"
    with x have "x \<in> set (querySelectorAll p ctx n)"
      by (simp add: querySelectorAll_def case_prod_beta)
    then have "(nid \<circ> snd) x \<in> (nid \<circ> snd) ` set (querySelectorAll p ctx n)"
      by (rule imageI)
    then show "nid (snd x) \<in> ?I" by simp
  qed
  then show ?thesis
    unfolding fold_detach_all using detach_all_prune(1) [of ctx n ?I p] by blast
qed

lemma ids_prune:
  "subseq (ids (prune p ctx n)) (ids n)"
  "subseq (concat (map ids (prune_from p ctx e ls rs))) (concat (map ids rs))"
proof (induction p ctx n and p ctx e ls rs rule: prune_prune_from.induct)
  case (1 p ctx i e cs)
  then show ?case by simp
next
  case (2 p ctx e ls)
  show ?case by simp
next
  case (3 p ctx e ls c rs)
  show ?case
  proof (cases "p (Frame e ls rs # ctx) c")
    case True
    with 3(2) show ?thesis by (simp add: list_emb_append2)
  next
    case False
    with 3(1) [OF False] 3(2) show ?thesis by (simp add: list_emb_append_mono)
  qed
qed

lemma distinct_prune: "distinct (ids n) \<Longrightarrow> distinct (ids (prune p ctx n))"
  using ids_prune(1) [of p ctx n] by (auto intro: subseqs_distinctD [of "ids (prune p ctx n)" "ids n"])

lemma root_prune [simp]: "nid (prune p ctx n) = nid n" "el (prune p ctx n) = el n"
  by (cases n; simp)+

lemma selector_matches_Some: "M s = Some p \<Longrightarrow> selector_matches M s = p"
  by (simp add: selector_matches_def fun_eq_iff)

lemma removal_is_steps:
  assumes "\<forall>s \<in> set S. M s \<noteq> None" "distinct (ids svg)"
  shows "normaliseSvg_removal M ctx S svg = (removal_steps M ctx S svg, None)"
  using assms
proof (induction S arbitrary: svg)
  case Nil
  then show ?case by simp
next
  case (Cons s ss)
  from Cons.prems(1) obtain p where p: "M s = Some p" by auto
  have "normaliseSvg_removal M ctx (s # ss) svg =
        normaliseSvg_removal M ctx ss (prune p ctx svg)"
    using p removal_loop_prune [OF Cons.prems(2)] by simp
  also have "\<dots> = (removal_steps M ctx ss (prune p ctx svg), None)"
    using Cons.prems(1) distinct_prune [OF Cons.prems(2)] by (intro Cons.IH) simp_all
  finally show ?case
    using selector_matches_Some [of M s p] p by simp
qed

lemma root_steps: "nid (removal_steps M ctx S svg) = nid svg \<and> el (removal_steps M ctx S svg) = el svg"
  by (induction S arbitrary: svg) simp_all

lemma ids_steps: "subseq (ids (removal_steps M ctx S svg)) (ids svg)"
proof (induction S arbitrary: svg)
  case Nil
  then show ?case by simp
next
  case (Cons s ss)
  have "subseq (ids (removal_steps M ctx ss (prune (selector_matches M s) ctx svg)))
          (ids (prune (selector_matches M s) ctx svg))"
    by (rule Cons.IH)
  then show ?case
    using ids_prune(1) [of "selector_matches M s" ctx svg] by (auto intro: subseq_order.trans)
qed

text \<open>
  Selectors that decide a match from an element and its ancestors alone: removing
  elements changes no match of an element that stays, so the steps of the list commute
  and add up to one pass.
\<close>

lemma ancestral_on_data:
  assumes "ancestral p"
  shows "p c d = on_data p (map frame_el c) (el d)"
proof -
  have "map frame_el c = map frame_el (map (\<lambda>x. Frame x [] []) (map frame_el c))"
    by (simp add: comp_def)
  moreover have "el d = el (Node 0 (el d) [])" by simp
  ultimately show ?thesis
    using assms unfolding ancestral_def on_data_def by blast
qed

lemma descendants_data:
  "map (\<lambda>x. (map frame_el (fst x), snd x)) (descendants ctx n) =
     descendants_data (map frame_el ctx) n"
  "map (\<lambda>x. (map frame_el (fst x), snd x)) (descendants_from ctx e ls rs) =
     concat (map (\<lambda>c. (e # map frame_el ctx, c) # descendants_data (e # map frame_el ctx) c) rs)"
proof (induction ctx n and ctx e ls rs rule: descendants_descendants_from.induct)
  case (1 ctx i e cs)
  then show ?case by simp
next
  case (2 ctx e ls)
  show ?case by simp
next
  case (3 ctx e ls c rs)
  then show ?case by simp
qed

lemma prune_data:
  "(\<forall>c d. p c d = q (map frame_el c) (el d)) \<longrightarrow>
     prune p ctx n = prune_data q (map frame_el ctx) n"
  "(\<forall>c d. p c d = q (map frame_el c) (el d)) \<longrightarrow>
     prune_from p ctx e ls rs =
       map (prune_data q (e # map frame_el ctx)) (filter (\<lambda>c. \<not> q (e # map frame_el ctx) (el c)) rs)"
proof (induction p ctx n and p ctx e ls rs rule: prune_prune_from.induct)
  case (1 p ctx i e cs)
  then show ?case by simp
next
  case (2 p ctx e ls)
  show ?case by simp
next
  case (3 p ctx e ls c rs)
  show ?case
  proof
    assume a: "\<forall>c d. p c d = q (map frame_el c) (el d)"
    then have h: "p (Frame e ls rs # ctx) c = q (e # map frame_el ctx) (el c)" by simp
    from a 3(2) have r: "prune_from p ctx e (ls @ [c]) rs =
        map (prune_data q (e # map frame_el ctx)) (filter (\<lambda>c. \<not> q (e # map frame_el ctx) (el c)) rs)"
      by blast
    show "prune_from p ctx e ls (c # rs) =
        map (prune_data q (e # map frame_el ctx))
          (filter (\<lambda>c. \<not> q (e # map frame_el ctx) (el c)) (c # rs))"
    proof (cases "p (Frame e ls rs # ctx) c")
      case True
      with h r show ?thesis by simp
    next
      case False
      from a 3(1) [OF False] have "prune p (Frame e ls rs # ctx) c =
          prune_data q (map frame_el (Frame e ls rs # ctx)) c" by blast
      then have "prune p (Frame e ls rs # ctx) c = prune_data q (e # map frame_el ctx) c"
        by simp
      with False h r show ?thesis by simp
    qed
  qed
qed

lemma el_prune_data [simp]: "el (prune_data q es n) = el n"
  by (cases n) simp

lemma prune_data_twice:
  "prune_data q2 es (prune_data q1 es n) = prune_data (\<lambda>c e. q1 c e \<or> q2 c e) es n"
proof (induction n arbitrary: es)
  case (Node j e cs)
  have "map (prune_data q2 (e # es))
          (filter (\<lambda>c. \<not> q2 (e # es) (el c))
             (map (prune_data q1 (e # es)) (filter (\<lambda>c. \<not> q1 (e # es) (el c)) cs))) =
        map (prune_data (\<lambda>c e. q1 c e \<or> q2 c e) (e # es))
          (filter (\<lambda>c. \<not> (q1 (e # es) (el c) \<or> q2 (e # es) (el c))) cs)"
    using Node by (induction cs) auto
  then show ?case by simp
qed

lemma descendants_prune_data:
  "(c, d) \<in> set (descendants_data es (prune_data q es n)) \<Longrightarrow> \<not> q c (el d)"
proof (induction n arbitrary: es)
  case (Node j e cs)
  from Node.prems obtain x where x: "x \<in> set cs" "\<not> q (e # es) (el x)"
    "(c, d) = (e # es, prune_data q (e # es) x) \<or>
     (c, d) \<in> set (descendants_data (e # es) (prune_data q (e # es) x))"
    by auto
  from x(3) show ?case
  proof
    assume "(c, d) = (e # es, prune_data q (e # es) x)"
    with x(2) show ?thesis by simp
  next
    assume "(c, d) \<in> set (descendants_data (e # es) (prune_data q (e # es) x))"
    with Node.IH [OF x(1)] show ?thesis .
  qed
qed

lemma prune_data_none: "prune_data (\<lambda>c e. False) es n = n"
proof (induction n arbitrary: es)
  case (Node j e cs)
  then show ?case by (simp add: map_idI)
qed

lemma steps_ancestral:
  assumes "\<forall>s \<in> set S. ancestral (selector_matches M s)"
  shows "removal_steps M ctx S svg = prune_data (any_data M S) (map frame_el ctx) svg"
  using assms
proof (induction S arbitrary: svg)
  case Nil
  have "any_data M [] = (\<lambda>c e. False)" by (simp add: any_data_def fun_eq_iff)
  then show ?case by (simp add: prune_data_none)
next
  case (Cons s ss)
  let ?q = "on_data (selector_matches M s)"
  from Cons.prems have a: "ancestral (selector_matches M s)"
    and r: "\<forall>s \<in> set ss. ancestral (selector_matches M s)" by simp_all
  have 1: "prune (selector_matches M s) ctx svg = prune_data ?q (map frame_el ctx) svg"
    using prune_data(1) [of "selector_matches M s" ?q ctx svg] ancestral_on_data [OF a] by blast
  have 2: "any_data M (s # ss) = (\<lambda>c e. ?q c e \<or> any_data M ss c e)"
    by (auto simp: any_data_def fun_eq_iff)
  show ?case
    by (simp add: 1 Cons.IH [OF r] prune_data_twice 2)
qed

text \<open>
  Claim C6, as the code has it.  For valid selectors and unique node identities the
  removal phase ends normally, and the tree it leaves is that of \<^const>\<open>removal_steps\<close>: one
  selector after the other, in the order of the list, the elements under the root that
  match the selector in the tree as it stands then are dropped with their subtrees.  The
  root is kept whether it matches or not, and the elements that stay keep their order.
  When every selector of the list decides a match from an element and its ancestors
  alone, the tree is the one in which, level by level, exactly the children that match
  some selector are dropped; no element that stays under the root matches a selector of
  the list; and every list with the same set of selectors gives the same tree.
\<close>

theorem normaliseSvg_removal_steps:
  assumes "\<forall>s \<in> set S. M s \<noteq> None" and "distinct (ids svg)"
  shows "\<exists>svg'. normaliseSvg_removal M ctx S svg = (svg', None) \<and>
           svg' = removal_steps M ctx S svg \<and>
           nid svg' = nid svg \<and> el svg' = el svg \<and> subseq (ids svg') (ids svg) \<and>
           ((\<forall>s \<in> set S. ancestral (selector_matches M s)) \<longrightarrow>
              svg' = prune_data (any_data M S) (map frame_el ctx) svg \<and>
              (\<forall>x \<in> set (descendants ctx svg'). \<forall>s \<in> set S. \<not> selector_matches M s (fst x) (snd x)) \<and>
              (\<forall>S'. set S' = set S \<longrightarrow> normaliseSvg_removal M ctx S' svg = (svg', None)))"
proof -
  let ?r = "removal_steps M ctx S svg"
  have r: "normaliseSvg_removal M ctx S svg = (?r, None)"
    using assms by (rule removal_is_steps)
  have k: "nid ?r = nid svg" "el ?r = el svg" "subseq (ids ?r) (ids svg)"
    using root_steps [of M ctx S svg] ids_steps [of M ctx S svg] by simp_all
  have l: "?r = prune_data (any_data M S) (map frame_el ctx) svg \<and>
      (\<forall>x \<in> set (descendants ctx ?r). \<forall>s \<in> set S. \<not> selector_matches M s (fst x) (snd x)) \<and>
      (\<forall>S'. set S' = set S \<longrightarrow> normaliseSvg_removal M ctx S' svg = (?r, None))"
    if a: "\<forall>s \<in> set S. ancestral (selector_matches M s)"
  proof -
    have e: "?r = prune_data (any_data M S) (map frame_el ctx) svg"
      using a by (rule steps_ancestral)
    have n: "\<not> selector_matches M s (fst x) (snd x)"
      if x: "x \<in> set (descendants ctx ?r)" and s: "s \<in> set S" for x s
    proof -
      from x have "(map frame_el (fst x), snd x) \<in>
          set (map (\<lambda>x. (map frame_el (fst x), snd x)) (descendants ctx ?r))"
        by force
      then have "(map frame_el (fst x), snd x) \<in>
          set (descendants_data (map frame_el ctx) (prune_data (any_data M S) (map frame_el ctx) svg))"
        unfolding descendants_data(1) e [symmetric] .
      then have "\<not> any_data M S (map frame_el (fst x)) (el (snd x))"
        by (rule descendants_prune_data)
      with s have "\<not> on_data (selector_matches M s) (map frame_el (fst x)) (el (snd x))"
        by (auto simp: any_data_def)
      with a s ancestral_on_data [of "selector_matches M s" "fst x" "snd x"] show ?thesis
        by blast
    qed
    have o: "normaliseSvg_removal M ctx S' svg = (?r, None)" if s: "set S' = set S" for S'
    proof -
      from s have q: "any_data M S' = any_data M S"
        by (simp add: any_data_def fun_eq_iff)
      from s assms(1) have v: "\<forall>s \<in> set S'. M s \<noteq> None" by simp
      from s a have "\<forall>s \<in> set S'. ancestral (selector_matches M s)" by simp
      then have "removal_steps M ctx S' svg = prune_data (any_data M S') (map frame_el ctx) svg"
        by (rule steps_ancestral)
      with q e have "removal_steps M ctx S' svg = ?r" by simp
      with removal_is_steps [OF v assms(2), of ctx] show ?thesis by simp
    qed
    from e n o show ?thesis by blast
  qed
  show ?thesis
  proof (intro exI [of _ ?r] conjI)
    show "normaliseSvg_removal M ctx S svg = (?r, None)" by (rule r)
    show "?r = removal_steps M ctx S svg" ..
    show "nid ?r = nid svg" "el ?r = el svg" "subseq (ids ?r) (ids svg)" by (rule k)+
    show "(\<forall>s \<in> set S. ancestral (selector_matches M s)) \<longrightarrow>
        ?r = prune_data (any_data M S) (map frame_el ctx) svg \<and>
        (\<forall>x \<in> set (descendants ctx ?r). \<forall>s \<in> set S. \<not> selector_matches M s (fst x) (snd x)) \<and>
        (\<forall>S'. set S' = set S \<longrightarrow> normaliseSvg_removal M ctx S' svg = (?r, None))"
      using l by (intro impI)
  qed
qed

lemma demo_selector_tags:
  "demo_selector ''svg'' = Some (\<lambda>c d. tag (el d) = ''svg'')"
  "demo_selector ''circle'' = Some (\<lambda>c d. tag (el d) = ''circle'')"
  "demo_selector ''defs'' = Some (\<lambda>c d. tag (el d) = ''defs'')"
  "demo_selector ''body'' = Some (\<lambda>c d. tag (el d) = ''body'')"
  "demo_selector ''aside'' = Some (\<lambda>c d. tag (el d) = ''aside'')"
  "demo_selector ''g:empty'' = Some (\<lambda>c d. tag (el d) = ''g'' \<and> children d = [])"
  "demo_selector [] = None"
  by (simp_all add: demo_selector_def INJECTOR_CONTAINER_ATTRIBUTE_def)

lemma tag_ancestral: "ancestral (\<lambda>c d. tag (el d) = t)"
  by (simp add: ancestral_def)

theorem normaliseSvg_removal_steps_witness:
  "demo_selector ''circle'' \<noteq> None \<and> demo_selector ''defs'' \<noteq> None \<and> distinct (ids demo_svg) \<and>
   ancestral (selector_matches demo_selector ''circle'') \<and>
   ancestral (selector_matches demo_selector ''defs'') \<and>
   normaliseSvg_removal demo_selector [] [''circle'', ''defs''] demo_svg =
     (Node 1 (plain ''svg'') [Node 2 (plain ''g'') []], None) \<and>
   \<not> selector_matches demo_selector ''circle'' [Frame (plain ''svg'') [] []] (Node 2 (plain ''g'') []) \<and>
   normaliseSvg_removal demo_selector [] [''defs'', ''circle''] demo_svg =
     (Node 1 (plain ''svg'') [Node 2 (plain ''g'') []], None)"
proof -
  have v: "demo_selector ''circle'' \<noteq> None" "demo_selector ''defs'' \<noteq> None"
    by (simp_all add: demo_selector_tags)
  then have h1: "\<forall>s \<in> set [''circle'', ''defs'']. demo_selector s \<noteq> None" by simp
  have h2: "distinct (ids demo_svg)"
    by (simp add: demo_svg_def)
  have a: "ancestral (selector_matches demo_selector ''circle'')"
    "ancestral (selector_matches demo_selector ''defs'')"
  proof -
    have "selector_matches demo_selector ''circle'' = (\<lambda>c d. tag (el d) = ''circle'')"
      using demo_selector_tags(2) by (rule selector_matches_Some)
    then show "ancestral (selector_matches demo_selector ''circle'')"
      by (simp add: tag_ancestral)
    have "selector_matches demo_selector ''defs'' = (\<lambda>c d. tag (el d) = ''defs'')"
      using demo_selector_tags(3) by (rule selector_matches_Some)
    then show "ancestral (selector_matches demo_selector ''defs'')"
      by (simp add: tag_ancestral)
  qed
  then have h3: "\<forall>s \<in> set [''circle'', ''defs'']. ancestral (selector_matches demo_selector s)"
    by simp
  have e: "removal_steps demo_selector [] [''circle'', ''defs''] demo_svg =
      Node 1 (plain ''svg'') [Node 2 (plain ''g'') []]"
    by (simp add: demo_svg_def selector_matches_def demo_selector_tags plain_def)
  have m: "([Frame (plain ''svg'') [] []], Node 2 (plain ''g'') []) \<in>
      set (descendants [] (Node 1 (plain ''svg'') [Node 2 (plain ''g'') []]))"
    by simp
  have s: "set [''defs'', ''circle''] = set [''circle'', ''defs'']" by auto
  from normaliseSvg_removal_steps [OF h1 h2, of "[]"] h3 obtain r where
    r: "normaliseSvg_removal demo_selector [] [''circle'', ''defs''] demo_svg = (r, None)"
      "r = removal_steps demo_selector [] [''circle'', ''defs''] demo_svg"
      "\<forall>x \<in> set (descendants [] r). \<forall>s \<in> set [''circle'', ''defs''].
         \<not> selector_matches demo_selector s (fst x) (snd x)"
      "\<forall>S'. set S' = set [''circle'', ''defs''] \<longrightarrow>
         normaliseSvg_removal demo_selector [] S' demo_svg = (r, None)"
    by blast
  from r(2) e have w: "r = Node 1 (plain ''svg'') [Node 2 (plain ''g'') []]" by simp
  from r(3) m have n: "\<not> selector_matches demo_selector ''circle'' [Frame (plain ''svg'') [] []]
      (Node 2 (plain ''g'') [])"
    unfolding w by fastforce
  from r(4) s have o: "normaliseSvg_removal demo_selector [] [''defs'', ''circle''] demo_svg = (r, None)"
    by blast
  from v h2 a r(1) n o show ?thesis unfolding w by blast
qed

text \<open>
  Claim C6 as stated fails on \<^verbatim>\<open><svg><g><circle/></g><defs/></svg>\<close>.  With the selectors
  \<^verbatim>\<open>svg\<close> and \<^verbatim>\<open>circle\<close> the root matches \<^verbatim>\<open>svg\<close> and stays, since
  \<^verbatim>\<open>querySelectorAll\<close> reports descendants only; and \<^verbatim>\<open>g\<close>, which matches nothing and has
  no removed ancestor, stays but loses its child.  With the selectors \<^verbatim>\<open>circle\<close> and
  \<^verbatim>\<open>g:empty\<close> the order of the list decides the result: \<^verbatim>\<open>circle\<close> first, the emptied
  \<^verbatim>\<open>g\<close> is removed; \<^verbatim>\<open>g:empty\<close> first, a \<^verbatim>\<open>g\<close> that matches \<^verbatim>\<open>g:empty\<close> is left in the tree.
\<close>

theorem normaliseSvg_removal_counterexample:
  "normaliseSvg_removal demo_selector [] [''svg'', ''circle''] demo_svg =
     (Node 1 (plain ''svg'') [Node 2 (plain ''g'') [], Node 4 (plain ''defs'') []], None) \<and>
   selector_matches demo_selector ''svg'' [] (Node 1 (plain ''svg'') [Node 2 (plain ''g'') [], Node 4 (plain ''defs'') []]) \<and>
   node_at demo_svg [0] = Some (Node 2 (plain ''g'') [Node 3 (plain ''circle'') []]) \<and>
   \<not> selector_matches demo_selector ''svg'' [Frame (plain ''svg'') [] [Node 4 (plain ''defs'') []]]
       (Node 2 (plain ''g'') [Node 3 (plain ''circle'') []]) \<and>
   \<not> selector_matches demo_selector ''circle'' [Frame (plain ''svg'') [] [Node 4 (plain ''defs'') []]]
       (Node 2 (plain ''g'') [Node 3 (plain ''circle'') []]) \<and>
   children (Node 2 (plain ''g'') []) \<noteq> children (Node 2 (plain ''g'') [Node 3 (plain ''circle'') []]) \<and>
   normaliseSvg_removal demo_selector [] [''circle'', ''g:empty''] demo_svg =
     (Node 1 (plain ''svg'') [Node 4 (plain ''defs'') []], None) \<and>
   normaliseSvg_removal demo_selector [] [''g:empty'', ''circle''] demo_svg =
     (Node 1 (plain ''svg'') [Node 2 (plain ''g'') [], Node 4 (plain ''defs'') []], None) \<and>
   selector_matches demo_selector ''g:empty'' [Frame (plain ''svg'') [] [Node 4 (plain ''defs'') []]]
     (Node 2 (plain ''g'') [])"
  by (simp add: demo_svg_def demo_selector_tags selector_matches_def querySelectorAll_def plain_def)

section \<open>Properties of the temporary container\<close>








text \<open>
  An identifier of \<^const>\<open>uuidv4\<close> is made of hexadecimal digits and hyphens, so the sample
  platform reads the selector built from it as the test on the marker attribute.  Only
  the low four bits of a random byte enter the identifier.
\<close>

lemma strip_prefix_append: "strip_prefix p (p @ s) = Some s"
  by (induction p) simp_all

lemma demo_selector_marker:
  assumes "CHR 0x22 \<notin> set v"
  shows "demo_selector (marker_selector v) = Some (marker_is v)"
proof -
  let ?p = "''['' @ INJECTOR_CONTAINER_ATTRIBUTE @ [CHR ''='', CHR 0x22]"
  have m: "marker_selector v = ?p @ (v @ [CHR 0x22, CHR '']''])"
    by (simp add: marker_selector_def)
  have 1: "marker_selector v \<noteq> []" "marker_selector v \<noteq> ''g:empty''"
    by (simp_all add: marker_selector_def)
  have 2: "strip_prefix ?p (marker_selector v) = Some (v @ [CHR 0x22, CHR '']''])"
    unfolding m by (rule strip_prefix_append)
  have 3: "strip_prefix [CHR '']'', CHR 0x22] (rev (v @ [CHR 0x22, CHR '']''])) = Some (rev v)"
    by simp
  show ?thesis
    unfolding demo_selector_def using assms by (simp only: 1 2 3 if_False option.case set_rev rev_rev_ident)
qed

lemma xor_less_16:
  assumes "(a::nat) < 16" "b < 16"
  shows "a XOR b < 16"
proof -
  have "take_bit 4 a = a" "take_bit 4 b = b"
    using assms by (simp_all add: take_bit_nat_eq_self_iff)
  then have "take_bit 4 (a XOR b) = a XOR b"
    by (simp add: take_bit_xor)
  then have "a XOR b < 2 ^ 4"
    by (simp only: take_bit_nat_eq_self_iff)
  then show ?thesis by simp
qed

lemma mask_within_15: "(r::nat) AND drop_bit j 15 = (r mod 16) AND drop_bit j 15"
proof -
  have "drop_bit j (15::nat) \<le> 15"
    by (simp add: drop_bit_eq_div div_le_dividend)
  then have "drop_bit j (15::nat) < 2 ^ 4" by simp
  then have t: "take_bit 4 (drop_bit j (15::nat)) = drop_bit j 15"
    by (simp only: take_bit_nat_eq_self_iff)
  have "take_bit 4 r AND drop_bit j 15 = (r AND mask 4) AND drop_bit j 15"
    by (simp only: take_bit_eq_mask)
  also have "\<dots> = r AND (drop_bit j 15 AND mask 4)"
    by (simp only: and.assoc and.commute)
  also have "\<dots> = r AND take_bit 4 (drop_bit j 15)"
    by (simp only: take_bit_eq_mask)
  finally have "take_bit 4 r AND drop_bit j 15 = r AND drop_bit j 15"
    by (simp only: t)
  then show ?thesis by (simp add: take_bit_eq_mod)
qed

lemma and_mask_less_16: "(r::nat) AND drop_bit j 15 < 16"
proof -
  have "drop_bit j (15::nat) \<le> 15"
    by (simp add: drop_bit_eq_div div_le_dividend)
  then have "drop_bit j (15::nat) < 2 ^ 4" by simp
  then have t: "take_bit 4 (drop_bit j (15::nat)) = drop_bit j 15"
    by (simp only: take_bit_nat_eq_self_iff)
  have "take_bit 4 (r AND drop_bit j 15) = take_bit 4 r AND drop_bit j 15"
    by (simp only: take_bit_and t)
  also have "\<dots> = r AND drop_bit j 15"
    using mask_within_15 [of r j] by (simp add: take_bit_eq_mod)
  finally have "r AND drop_bit j 15 < 2 ^ 4"
    by (simp only: take_bit_nat_eq_self_iff)
  then show ?thesis by simp
qed

lemma hex_lower_chars:
  assumes "d < 16"
  shows "hex_lower d \<in> set ''0123456789abcdef''"
proof -
  from assms have "d \<in> {15, 14, 13, 12, 11, 10} \<or> d \<in> {9, 8, 7, 6, 5} \<or> d \<in> {4, 3, 2, 1, 0}"
    by (simp only: insert_iff empty_iff) presburger
  then show ?thesis
    by (elim disjE insertE emptyE) (simp_all add: hex_lower_def char_of_def bit_Suc_0_iff)
qed

lemma uuid_replace_chars:
  "set s \<subseteq> set ''0123456789-'' \<Longrightarrow> set (uuid_replace rnd k s) \<subseteq> set ''0123456789abcdef-''"
proof (induction s arbitrary: k)
  case Nil
  show ?case by simp
next
  case (Cons c s)
  have d: "digit_of c < 16" if "c \<in> set ''018''"
    using that by (auto simp: digit_of_def)
  have "hex_lower (digit_of c XOR (rnd k AND drop_bit (digit_of c div 4) 15)) \<in> set ''0123456789abcdef''"
    if "c \<in> set ''018''"
    by (rule hex_lower_chars, rule xor_less_16, rule d [OF that], rule and_mask_less_16)
  moreover have "c \<in> set ''0123456789-''" "set s \<subseteq> set ''0123456789-''"
    using Cons.prems by simp_all
  moreover note Cons.IH [OF \<open>set s \<subseteq> set ''0123456789-''\<close>]
  ultimately show ?case
    by (simp only: uuid_replace.simps split: if_splits) auto
qed

lemma uuidv4_chars: "set (uuidv4 rnd) \<subseteq> set ''0123456789abcdef-''"
  unfolding uuidv4_def by (rule uuid_replace_chars) simp

lemma uuidv4_selector:
  "demo_selector (marker_selector (uuidv4 rnd)) = Some (marker_is (uuidv4 rnd))"
proof (rule demo_selector_marker)
  show "CHR 0x22 \<notin> set (uuidv4 rnd)"
    using uuidv4_chars [of rnd] by auto
qed

lemma uuid_replace_low_bits:
  "(\<And>j. rnd j mod 16 = rnd' j mod 16) \<Longrightarrow> uuid_replace rnd k s = uuid_replace rnd' k s"
proof (induction s arbitrary: k)
  case Nil
  show ?case by simp
next
  case (Cons c s)
  have "rnd k AND drop_bit (digit_of c div 4) 15 = rnd' k AND drop_bit (digit_of c div 4) 15"
    using mask_within_15 [of "rnd k"] mask_within_15 [of "rnd' k"] Cons.prems [of k] by simp
  with Cons show ?case by simp
qed

lemma uuidv4_low_bits:
  "(\<And>j. rnd j mod 16 = rnd' j mod 16) \<Longrightarrow> uuidv4 rnd = uuidv4 rnd'"
  unfolding uuidv4_def by (rule uuid_replace_low_bits)



lemma uuidv4_zero: "uuidv4 (\<lambda>k. 0) = ''10000000-1000-4000-8000-100000000000''"
  by (simp add: uuidv4_def hex_lower_def digit_of_def char_of_def bit_Suc_0_iff)


lemma demo_selector_marker_zero:
  "demo_selector (marker_selector ''10000000-1000-4000-8000-100000000000'') =
     Some (marker_is ''10000000-1000-4000-8000-100000000000'')"
  by (simp add: demo_selector_def marker_selector_def INJECTOR_CONTAINER_ATTRIBUTE_def)




section \<open>Properties of the image source\<close>

section \<open>Properties of the image source\<close>

lemma hex_upper_props:
  "n < 16 \<Longrightarrow> is_hex (hex_upper n) \<and> digit_value (hex_upper n) = n \<and> hex_upper n \<noteq> 117"
  by (auto simp: hex_upper_def is_hex_def digit_value_def)

lemma unescape_plain: "c \<noteq> 37 \<Longrightarrow> unescape (c # cs) = c # unescape cs"
  by simp

lemma unescape_octet:
  assumes "b < 256"
  shows "unescape (percent_octet b @ rest) = b # unescape rest"
proof -
  have d: "b div 16 < 16" "b mod 16 < 16" using assms by simp_all
  note h = hex_upper_props [OF d(1)] hex_upper_props [OF d(2)]
  have v: "hex_value [hex_upper (b div 16), hex_upper (b mod 16)] = b"
    using h by (simp add: hex_value_def)
  show ?thesis
    using h v by (simp add: percent_octet_def)
qed

lemma unescape_octets:
  "\<forall>b \<in> set bs. b < 256 \<Longrightarrow> unescape (concat (map percent_octet bs) @ rest) = bs @ unescape rest"
  by (induction bs) (simp_all add: unescape_octet)

lemma utf8_encode_cp_bytes:
  assumes "cp < 1114112"
  shows "\<forall>b \<in> set (utf8_encode_cp cp). b < 256"
proof -
  have "cp div 262144 < 16" using assms by simp
  moreover have "cp < 65536 \<Longrightarrow> cp div 4096 < 16" by simp
  moreover have "cp < 2048 \<Longrightarrow> cp div 64 < 32" by simp
  moreover have "cp mod 64 < 64" "cp div 64 mod 64 < 64" "cp div 4096 mod 64 < 64" by simp_all
  ultimately show ?thesis
    by (auto simp: utf8_encode_cp_def)
qed

lemma surrogate_pair_range:
  assumes "is_high_surrogate h" "is_low_surrogate l"
  shows "65536 \<le> surrogate_pair h l" "surrogate_pair h l < 1114112"
  using assms by (auto simp: surrogate_pair_def is_high_surrogate_def is_low_surrogate_def)

lemma code_points_valid:
  "code_points s = Some cps \<Longrightarrow> \<forall>cp \<in> set cps. valid_cp cp"
proof (induction s arbitrary: cps rule: code_points.induct)
  case 1
  then show ?case by simp
next
  case (2 u us)
  show ?case
  proof (cases "is_high_surrogate u")
    case True
    with 2(3) obtain l rest cps' where
      s: "us = l # rest" "is_low_surrogate l" "code_points rest = Some cps'"
         "cps = surrogate_pair u l # cps'"
      by (auto split: if_splits list.splits)
    have u: "\<not> 65536 \<le> u" using True by (simp add: is_high_surrogate_def)
    from "2.IH"(1) [OF u True s(1,2,3)] have "\<forall>cp \<in> set cps'. valid_cp cp" .
    moreover have "valid_cp (surrogate_pair u l)"
      using surrogate_pair_range [OF True s(2)] by (simp add: valid_cp_def)
    ultimately show ?thesis by (simp add: s(4))
  next
    case False
    with 2(3) obtain cps' where
      s: "\<not> 65536 \<le> u" "\<not> is_low_surrogate u" "code_points us = Some cps'" "cps = u # cps'"
      by (auto split: if_splits)
    from "2.IH"(2) [OF s(1) False s(2,3)] have "\<forall>cp \<in> set cps'. valid_cp cp" .
    moreover have "valid_cp u"
      using s(1,2) False by (auto simp: valid_cp_def is_high_surrogate_def is_low_surrogate_def)
    ultimately show ?thesis by (simp add: s(4))
  qed
qed

lemma uri_unescaped_ascii: "uri_unescaped u \<Longrightarrow> u < 128 \<and> u \<noteq> 37"
  by (auto simp: uri_unescaped_def ascii_def)

lemma encode_unescape:
  "code_points s = Some cps \<Longrightarrow>
   \<exists>r. encodeURIComponent s = Inr r \<and> unescape r = concat (map utf8_encode_cp cps)"
proof (induction s arbitrary: cps rule: code_points.induct)
  case 1
  then show ?case by simp
next
  case (2 u us)
  show ?case
  proof (cases "is_high_surrogate u")
    case True
    with 2(3) obtain l rest cps' where
      s: "us = l # rest" "is_low_surrogate l" "code_points rest = Some cps'"
         "cps = surrogate_pair u l # cps'"
      by (auto split: if_splits list.splits)
    have u: "\<not> 65536 \<le> u" using True by (simp add: is_high_surrogate_def)
    from "2.IH"(1) [OF u True s(1,2,3)] obtain r where
      r: "encodeURIComponent rest = Inr r" "unescape r = concat (map utf8_encode_cp cps')"
      by blast
    have n: "\<not> uri_unescaped u"
      using True uri_unescaped_ascii [of u] by (auto simp: is_high_surrogate_def)
    have e: "encodeURIComponent (u # us) =
        Inr (concat (map percent_octet (utf8_encode_cp (surrogate_pair u l))) @ r)"
      using n True s(1,2) r(1) by simp
    have "unescape (concat (map percent_octet (utf8_encode_cp (surrogate_pair u l))) @ r) =
        utf8_encode_cp (surrogate_pair u l) @ unescape r"
      by (rule unescape_octets)
         (rule utf8_encode_cp_bytes, rule surrogate_pair_range(2) [OF True s(2)])
    with e r(2) s(4) show ?thesis by simp
  next
    case False
    with 2(3) obtain cps' where
      s: "\<not> 65536 \<le> u" "\<not> is_low_surrogate u" "code_points us = Some cps'" "cps = u # cps'"
      by (auto split: if_splits)
    from "2.IH"(2) [OF s(1) False s(2,3)] obtain r where
      r: "encodeURIComponent us = Inr r" "unescape r = concat (map utf8_encode_cp cps')"
      by blast
    show ?thesis
    proof (cases "uri_unescaped u")
      case True
      with uri_unescaped_ascii [of u] have a: "u < 128" "u \<noteq> 37" by simp_all
      have "encodeURIComponent (u # us) = Inr (u # r)" using True r(1) by simp
      moreover have "unescape (u # r) = u # unescape r" using a(2) by (rule unescape_plain)
      moreover have "utf8_encode_cp u = [u]" using a(1) by (simp add: utf8_encode_cp_def)
      ultimately show ?thesis using r(2) s(4) by simp
    next
      case n: False
      have e: "encodeURIComponent (u # us) =
          Inr (concat (map percent_octet (utf8_encode_cp u)) @ r)"
        using n False s(2) r(1) by simp
      have "unescape (concat (map percent_octet (utf8_encode_cp u)) @ r) =
          utf8_encode_cp u @ unescape r"
        by (rule unescape_octets) (rule utf8_encode_cp_bytes, use s(1) in simp)
      with e r(2) s(4) show ?thesis by simp
    qed
  qed
qed

lemma code_points_utf16:
  "code_points s = Some cps \<Longrightarrow> concat (map utf16_encode_cp cps) = s"
proof (induction s arbitrary: cps rule: code_points.induct)
  case 1
  then show ?case by simp
next
  case (2 u us)
  show ?case
  proof (cases "is_high_surrogate u")
    case True
    with 2(3) obtain l rest cps' where
      s: "us = l # rest" "is_low_surrogate l" "code_points rest = Some cps'"
         "cps = surrogate_pair u l # cps'"
      by (auto split: if_splits list.splits)
    have u: "\<not> 65536 \<le> u" using True by (simp add: is_high_surrogate_def)
    from "2.IH"(1) [OF u True s(1,2,3)] have i: "concat (map utf16_encode_cp cps') = rest" .
    define a b where "a = u - 55296" and "b = l - 56320"
    have ab: "u = 55296 + a" "l = 56320 + b" "b < 1024"
      using True s(2) unfolding is_high_surrogate_def is_low_surrogate_def a_def b_def
      by linarith+
    have "utf16_encode_cp (surrogate_pair u l) = [u, l]"
      using ab by (simp add: utf16_encode_cp_def surrogate_pair_def)
    with i s(1,4) show ?thesis by simp
  next
    case False
    with 2(3) obtain cps' where
      s: "\<not> 65536 \<le> u" "\<not> is_low_surrogate u" "code_points us = Some cps'" "cps = u # cps'"
      by (auto split: if_splits)
    from "2.IH"(2) [OF s(1) False s(2,3)] have "concat (map utf16_encode_cp cps') = us" .
    moreover have "utf16_encode_cp u = [u]" using s(1) by (simp add: utf16_encode_cp_def)
    ultimately show ?thesis using s(4) by simp
  qed
qed

lemma digits3: "(n::nat) div 4096 * 4096 + n div 64 mod 64 * 64 + n mod 64 = n"
proof -
  define m q r s where "m = n div 64" and "q = m div 64" and "r = m mod 64" and "s = n mod 64"
  have 1: "n = m * 64 + s" by (simp add: m_def s_def)
  have 2: "m = q * 64 + r" by (simp add: q_def r_def)
  have 3: "n div 4096 = q" by (simp add: q_def m_def div_mult2_eq)
  have "q * 4096 + r * 64 + s = n" using 1 2 by linarith
  then show ?thesis unfolding 3 unfolding r_def s_def m_def .
qed

lemma digits4:
  "(n::nat) div 262144 * 262144 + n div 4096 mod 64 * 4096 + n div 64 mod 64 * 64 + n mod 64 = n"
proof -
  define m s where "m = n div 64" and "s = n mod 64"
  have 1: "n = m * 64 + s" by (simp add: m_def s_def)
  have 2: "m div 4096 * 4096 + m div 64 mod 64 * 64 + m mod 64 = m" by (rule digits3)
  have 3: "n div 262144 = m div 4096" "n div 4096 = m div 64"
    by (simp_all add: m_def div_mult2_eq)
  define a b c where "a = m div 4096" and "b = m div 64 mod 64" and "c = m mod 64"
  have "a * 262144 + b * 4096 + c * 64 + s = n"
    using 1 2 unfolding a_def [symmetric] b_def [symmetric] c_def [symmetric] by linarith
  then show ?thesis unfolding 3 a_def b_def c_def s_def m_def .
qed

lemma utf8_roundtrip_cp:
  assumes "valid_cp cp"
  shows "utf8_decode (utf8_encode_cp cp @ rest) = map_option ((#) cp) (utf8_decode rest)"
proof -
  consider (a) "cp < 128" | (b) "128 \<le> cp" "cp < 2048" | (c) "2048 \<le> cp" "cp < 65536"
    | (d) "65536 \<le> cp" by linarith
  then show ?thesis
  proof cases
    case a
    then show ?thesis by (simp add: utf8_encode_cp_def utf8_decode_cp_def)
  next
    case b
    define x y where "x = cp div 64" and "y = cp mod 64"
    have g: "x * 64 + y = cp" by (simp add: x_def y_def)
    have f: "x < 32" "y < 64"
      using b by (simp_all add: x_def y_def)
    have e: "utf8_encode_cp cp = [192 + x, 128 + y]"
      using b by (simp add: utf8_encode_cp_def x_def y_def)
    have "utf8_decode_cp (192 + x) ((128 + y) # rest) = Some (cp, 1)"
      using f b(1) by (simp add: utf8_decode_cp_def continuation_def g)
    then show ?thesis by (simp add: e)
  next
    case c
    define x y z where "x = cp div 4096" and "y = cp div 64 mod 64" and "z = cp mod 64"
    have g: "x * 4096 + y * 64 + z = cp" unfolding x_def y_def z_def by (rule digits3)
    have f: "x < 16" "y < 64" "z < 64"
      using c by (simp_all add: x_def y_def z_def)
    have e: "utf8_encode_cp cp = [224 + x, 128 + y, 128 + z]"
      using c by (simp add: utf8_encode_cp_def x_def y_def z_def)
    have "utf8_decode_cp (224 + x) ((128 + y) # (128 + z) # rest) = Some (cp, 2)"
      using f c(1) assms by (simp add: utf8_decode_cp_def continuation_def valid_cp_def g)
    then show ?thesis by (simp add: e)
  next
    case d
    define x y z w where "x = cp div 262144" and "y = cp div 4096 mod 64"
      and "z = cp div 64 mod 64" and "w = cp mod 64"
    have g: "x * 262144 + y * 4096 + z * 64 + w = cp"
      unfolding x_def y_def z_def w_def by (rule digits4)
    have "cp < 8 * 262144" using assms by (simp add: valid_cp_def)
    then have "cp div 262144 < 8" by (rule less_mult_imp_div_less)
    then have f: "x < 8" "y < 64" "z < 64" "w < 64"
      by (simp_all add: x_def y_def z_def w_def)
    have e: "utf8_encode_cp cp = [240 + x, 128 + y, 128 + z, 128 + w]"
      using d by (simp add: utf8_encode_cp_def x_def y_def z_def w_def)
    have "utf8_decode_cp (240 + x) ((128 + y) # (128 + z) # (128 + w) # rest) = Some (cp, 3)"
      using f d assms by (simp add: utf8_decode_cp_def continuation_def valid_cp_def g)
    then show ?thesis by (simp add: e)
  qed
qed

lemma utf8_roundtrip:
  "\<forall>cp \<in> set cps. valid_cp cp \<Longrightarrow> utf8_decode (concat (map utf8_encode_cp cps)) = Some cps"
  by (induction cps) (simp_all add: utf8_roundtrip_cp)

lemma b64_props: "n < 64 \<Longrightarrow> b64_value (b64 n) = Some n \<and> b64 n \<noteq> 61"
  by (auto simp: b64_def b64_value_def)

lemma sextets:
  fixes a b c :: nat
  assumes "a < 256" "b < 256" "c < 256"
  shows "a div 4 < 64" "a mod 4 * 16 + b div 16 < 64" "b mod 16 * 4 + c div 64 < 64" "c mod 64 < 64"
    "a mod 4 * 16 < 64" "b mod 16 * 4 < 64"
    "a div 4 * 4 + (a mod 4 * 16 + b div 16) div 16 = a"
    "(a mod 4 * 16 + b div 16) mod 16 * 16 + (b mod 16 * 4 + c div 64) div 4 = b"
    "(b mod 16 * 4 + c div 64) mod 4 * 64 + c mod 64 = c"
    "a div 4 * 4 + a mod 4 * 16 div 16 = a"
    "(a mod 4 * 16 + b div 16) mod 16 * 16 + b mod 16 * 4 div 4 = b"
proof -
  define a1 a0 b1 b0 c1 c0 where "a1 = a div 4" and "a0 = a mod 4" and "b1 = b div 16"
    and "b0 = b mod 16" and "c1 = c div 64" and "c0 = c mod 64"
  have e: "a = a1 * 4 + a0" "b = b1 * 16 + b0" "c = c1 * 64 + c0"
    by (simp_all add: a1_def a0_def b1_def b0_def c1_def c0_def)
  have r: "a0 < 4" "b0 < 16" "c0 < 64" "a1 < 64" "b1 < 16" "c1 < 4"
    using assms by (simp_all add: a1_def a0_def b1_def b0_def c1_def c0_def)
  have 1: "a1 < 64" "a0 * 16 + b1 < 64" "b0 * 4 + c1 < 64" "c0 < 64" "a0 * 16 < 64" "b0 * 4 < 64"
    using r by linarith+
  have 2: "(a0 * 16 + b1) div 16 = a0" "(a0 * 16 + b1) mod 16 = b1"
    "(b0 * 4 + c1) div 4 = b0" "(b0 * 4 + c1) mod 4 = c1"
    using r by simp_all
  have 3: "a1 * 4 + (a0 * 16 + b1) div 16 = a"
    "(a0 * 16 + b1) mod 16 * 16 + (b0 * 4 + c1) div 4 = b"
    "(b0 * 4 + c1) mod 4 * 64 + c0 = c"
    "a1 * 4 + a0 * 16 div 16 = a"
    "(a0 * 16 + b1) mod 16 * 16 + b0 * 4 div 4 = b"
    unfolding 2 e by simp_all
  from 1 show "a div 4 < 64" "a mod 4 * 16 + b div 16 < 64" "b mod 16 * 4 + c div 64 < 64"
    "c mod 64 < 64" "a mod 4 * 16 < 64" "b mod 16 * 4 < 64"
    unfolding a1_def a0_def b1_def b0_def c1_def c0_def .
  from 3 show "a div 4 * 4 + (a mod 4 * 16 + b div 16) div 16 = a"
    "(a mod 4 * 16 + b div 16) mod 16 * 16 + (b mod 16 * 4 + c div 64) div 4 = b"
    "(b mod 16 * 4 + c div 64) mod 4 * 64 + c mod 64 = c"
    "a div 4 * 4 + a mod 4 * 16 div 16 = a"
    "(a mod 4 * 16 + b div 16) mod 16 * 16 + b mod 16 * 4 div 4 = b"
    unfolding a1_def a0_def b1_def b0_def c1_def c0_def .
qed

lemma decode_group:
  assumes "x < 64" "y < 64" "z < 64" "w < 64"
  shows "base64_decode (b64 x # b64 y # b64 z # b64 w # cs) =
     map_option (\<lambda>r. (x * 4 + y div 16) # (y mod 16 * 16 + z div 4) # (z mod 4 * 64 + w) # r)
       (base64_decode cs)"
  using assms [THEN b64_props] by simp

lemma decode_pad1:
  assumes "x < 64" "y < 64" "z < 64"
  shows "base64_decode [b64 x, b64 y, b64 z, 61] = Some [x * 4 + y div 16, y mod 16 * 16 + z div 4]"
  using assms [THEN b64_props] by simp

lemma decode_pad2:
  assumes "x < 64" "y < 64"
  shows "base64_decode [b64 x, b64 y, 61, 61] = Some [x * 4 + y div 16]"
  using assms [THEN b64_props] by simp

lemma base64_roundtrip:
  "\<forall>b \<in> set bs. b < 256 \<Longrightarrow> base64_decode (base64_encode bs) = Some bs"
proof (induction bs rule: base64_encode.induct)
  case 1
  then show ?case by simp
next
  case (2 a)
  then have a: "a < 256" by simp
  note s = sextets [OF a a a]
  show ?case
    unfolding base64_encode.simps decode_pad2 [OF s(1,5)] s(10) ..
next
  case (3 a b)
  then have a: "a < 256" "b < 256" by simp_all
  note s = sextets [OF a a(2)]
  show ?case
    unfolding base64_encode.simps decode_pad1 [OF s(1,2,6)] s(7,11) ..
next
  case (4 a b c bs)
  then have a: "a < 256" "b < 256" "c < 256" and r: "\<forall>b \<in> set bs. b < 256" by simp_all
  note s = sextets [OF a]
  show ?case
    unfolding base64_encode.simps decode_group [OF s(1,2,3,4)] s(7,8,9) "4.IH" [OF r]
    by simp
qed

lemma encode_ill_formed:
  "\<forall>u \<in> set s. u < 65536 \<Longrightarrow> code_points s = None \<Longrightarrow> encodeURIComponent s = Inl URIError"
proof (induction s rule: code_points.induct)
  case 1
  then show ?case by simp
next
  case (2 u us)
  from "2.prems"(1) have u: "\<not> 65536 \<le> u" and r: "\<forall>u \<in> set us. u < 65536" by simp_all
  show ?case
  proof (cases "is_high_surrogate u")
    case True
    have n: "\<not> uri_unescaped u"
      using True uri_unescaped_ascii [of u] by (auto simp: is_high_surrogate_def)
    show ?thesis
    proof (cases us)
      case Nil
      with n True show ?thesis by simp
    next
      case (Cons l rest)
      show ?thesis
      proof (cases "is_low_surrogate l")
        case l: True
        from "2.prems"(2) u True Cons l have "code_points rest = None" by simp
        moreover from r Cons have "\<forall>u \<in> set rest. u < 65536" by simp
        ultimately have "encodeURIComponent rest = Inl URIError"
          using "2.IH"(1) [OF u True Cons l] by simp
        with n True Cons l show ?thesis by simp
      next
        case False
        with n True Cons show ?thesis by simp
      qed
    qed
  next
    case False
    show ?thesis
    proof (cases "is_low_surrogate u")
      case True
      have "\<not> uri_unescaped u"
        using True uri_unescaped_ascii [of u] by (auto simp: is_low_surrogate_def)
      with True False show ?thesis by simp
    next
      case l: False
      from "2.prems"(2) u False l have "code_points us = None" by simp
      then have "encodeURIComponent us = Inl URIError"
        using "2.IH"(2) [OF u False l] r by simp
      with False l show ?thesis by simp
    qed
  qed
qed

lemma lone_surrogate_src: "image_src [55357] = Inl URIError"
  by (simp add: image_src_def uri_unescaped_def ascii_def is_high_surrogate_def)

lemma demo_code_points: "code_points [233, 55357, 56832] = Some [233, 128512]"
  by (simp add: is_high_surrogate_def is_low_surrogate_def surrogate_pair_def)

text \<open>
  Claim C8, as the code has it.  Let the serialized string be a JavaScript string (code
  units below \<open>2\<^sup>1\<^sup>6\<close>).  When every surrogate in it is half of a pair, the image
  source is the prefix \<^verbatim>\<open>data:image/svg+xml;base64,\<close> followed by the base64 encoding of the
  UTF-8 bytes of its code points, and decoding the base64 text and then the UTF-8 bytes
  gives back the code points of the string and so the string itself, non-ASCII
  characters included.  When the string holds an unpaired surrogate,
  \<^verbatim>\<open>encodeURIComponent\<close> throws a URIError and there is no image source.
\<close>

theorem image_src_base64_utf8:
  assumes "\<forall>u \<in> set svgData. u < 65536"
  shows "case code_points svgData of
           None \<Rightarrow> image_src svgData = Inl URIError
         | Some cps \<Rightarrow>
             image_src svgData =
               Inr (ascii ''data:image/svg+xml;base64,'' @ base64_encode (concat (map utf8_encode_cp cps))) \<and>
             base64_decode (base64_encode (concat (map utf8_encode_cp cps))) =
               Some (concat (map utf8_encode_cp cps)) \<and>
             utf8_decode (concat (map utf8_encode_cp cps)) = Some cps \<and>
             concat (map utf16_encode_cp cps) = svgData"
proof (cases "code_points svgData")
  case None
  with assms have "encodeURIComponent svgData = Inl URIError" by (rule encode_ill_formed)
  with None show ?thesis by (simp add: image_src_def)
next
  case (Some cps)
  let ?bytes = "concat (map utf8_encode_cp cps)"
  from encode_unescape [OF Some] obtain r where
    r: "encodeURIComponent svgData = Inr r" "unescape r = ?bytes" by blast
  have v: "\<forall>cp \<in> set cps. valid_cp cp" using Some by (rule code_points_valid)
  have b: "\<forall>b \<in> set ?bytes. b < 256"
  proof
    fix b assume "b \<in> set ?bytes"
    then obtain cp where c: "cp \<in> set cps" "b \<in> set (utf8_encode_cp cp)" by auto
    from v c(1) have "cp < 1114112" by (simp add: valid_cp_def)
    from utf8_encode_cp_bytes [OF this] c(2) show "b < 256" by blast
  qed
  have "\<not> (\<exists>c \<in> set ?bytes. 255 < c)"
  proof
    assume "\<exists>c \<in> set ?bytes. 255 < c"
    then obtain c where "c \<in> set ?bytes" "255 < c" by blast
    with b show False by fastforce
  qed
  then have "btoa ?bytes = Inr (base64_encode ?bytes)" unfolding btoa_def by (rule if_not_P)
  with r have 1: "image_src svgData = Inr (ascii ''data:image/svg+xml;base64,'' @ base64_encode ?bytes)"
    by (simp add: image_src_def)
  have 2: "base64_decode (base64_encode ?bytes) = Some ?bytes" using b by (rule base64_roundtrip)
  have 3: "utf8_decode ?bytes = Some cps" using v by (rule utf8_roundtrip)
  have 4: "concat (map utf16_encode_cp cps) = svgData" using Some by (rule code_points_utf16)
  from 1 2 3 4 Some show ?thesis by simp
qed

theorem image_src_base64_utf8_witness:
  "code_points [233, 55357, 56832] = Some [233, 128512] \<and>
   image_src [233, 55357, 56832] =
     Inr (ascii ''data:image/svg+xml;base64,'' @ base64_encode (concat (map utf8_encode_cp [233, 128512]))) \<and>
   base64_decode (base64_encode (concat (map utf8_encode_cp [233, 128512]))) =
     Some (concat (map utf8_encode_cp [233, 128512])) \<and>
   utf8_decode (concat (map utf8_encode_cp [233, 128512])) = Some [233, 128512] \<and>
   concat (map utf16_encode_cp [233, 128512]) = [233, 55357, 56832]"
proof -
  have h: "\<forall>u \<in> set [233, 55357, 56832]. u < (65536::nat)" by simp
  from image_src_base64_utf8 [OF h] show ?thesis
    unfolding demo_code_points option.case using demo_code_points by blast
qed

text \<open>
  Claim C8 as stated fails on a serialization whose text holds a high surrogate alone
  (the first half of an emoji), \<^verbatim>\<open><svg><text>\<close>, the code unit D83D,
  \<^verbatim>\<open></text></svg>\<close>: no payload is produced.
\<close>

theorem image_src_counterexample:
  "image_src (ascii ''<svg><text>'' @ [55357] @ ascii ''</text></svg>'') = Inl URIError"
  by (simp add: image_src_def uri_unescaped_def ascii_def is_high_surrogate_def is_low_surrogate_def)

section \<open>Properties of the double product\<close>

text \<open>
  Rounding to double is decided inside a binade; a number with at most 53 significant
  bits is its own double.
\<close>

lemma round_even_of_int: "round_even (of_int m) = m"
  by (simp add: round_even_def)

lemma round_even_nonneg: "0 \<le> q \<Longrightarrow> 0 \<le> round_even q"
  by (simp add: round_even_def Let_def)

lemma to_double_nonneg: "0 \<le> x \<Longrightarrow> 0 \<le> to_double x"
  by (simp add: to_double_def Let_def round_even_nonneg)

lemma to_double_binade:
  assumes "2 powr of_int n \<le> x" "x < 2 powr of_int (n + 1)"
  shows "to_double x = of_int (round_even (x / 2 powr of_int (n - 52))) * 2 powr of_int (n - 52)"
proof -
  have "(0::real) < 2 powr of_int n" by simp
  with assms(1) have p: "0 < x" by linarith
  then have "\<lfloor>log 2 \<bar>x\<bar>\<rfloor> = n"
    using assms by (simp add: floor_log_eq_powr_iff)
  with p show ?thesis by (simp add: to_double_def)
qed

lemma to_double_exact:
  assumes "2 powr of_int n \<le> x" "x < 2 powr of_int (n + 1)" "x = of_int m * 2 powr of_int (n - 52)"
  shows "to_double x = x"
proof -
  have "x / 2 powr of_int (n - 52) = of_int m"
    using assms(3) by simp
  then show ?thesis
    using to_double_binade [OF assms(1,2)] assms(3) by (simp add: round_even_of_int)
qed

lemma powr_neg_int: "(2::real) powr of_int (- int k) = 1 / 2 ^ k"
  by (simp add: powr_minus_divide powr_realpow)

lemma powr_pos_int: "(2::real) powr of_int (int k) = 2 ^ k"
  by (simp add: powr_realpow)

lemma to_double_201_2: "to_double (201 / 2) = 201 / 2"
proof (rule to_double_exact [where n = 6 and m = "201 * 2 ^ 45"])
  show "2 powr real_of_int 6 \<le> (201 / 2 :: real)"
    using powr_pos_int [of 6] by simp
  show "(201 / 2 :: real) < 2 powr real_of_int (6 + 1)"
    using powr_pos_int [of 7] by simp
  show "(201 / 2 :: real) = real_of_int (201 * 2 ^ 45) * 2 powr real_of_int (6 - 52)"
    using powr_neg_int [of 46] by simp
qed

lemma to_double_50: "to_double 50 = 50"
proof (rule to_double_exact [where n = 5 and m = "25 * 2 ^ 48"])
  show "2 powr real_of_int 5 \<le> (50 :: real)"
    using powr_pos_int [of 5] by simp
  show "(50 :: real) < 2 powr real_of_int (5 + 1)"
    using powr_pos_int [of 6] by simp
  show "(50 :: real) = real_of_int (25 * 2 ^ 48) * 2 powr real_of_int (5 - 52)"
    using powr_neg_int [of 47] by simp
qed

lemma to_double_603_2: "to_double (603 / 2) = 603 / 2"
proof (rule to_double_exact [where n = 8 and m = "603 * 2 ^ 43"])
  show "2 powr real_of_int 8 \<le> (603 / 2 :: real)"
    using powr_pos_int [of 8] by simp
  show "(603 / 2 :: real) < 2 powr real_of_int (8 + 1)"
    using powr_pos_int [of 9] by simp
  show "(603 / 2 :: real) = real_of_int (603 * 2 ^ 43) * 2 powr real_of_int (8 - 52)"
    using powr_neg_int [of 44] by simp
qed

lemma to_double_150: "to_double 150 = 150"
proof (rule to_double_exact [where n = 7 and m = "75 * 2 ^ 46"])
  show "2 powr real_of_int 7 \<le> (150 :: real)"
    using powr_pos_int [of 7] by simp
  show "(150 :: real) < 2 powr real_of_int (7 + 1)"
    using powr_pos_int [of 8] by simp
  show "(150 :: real) = real_of_int (75 * 2 ^ 46) * 2 powr real_of_int (7 - 52)"
    using powr_neg_int [of 45] by simp
qed

text \<open>0.7 as a double is 3152519739159347 / 2^52.\<close>

lemma fmul_10_07: "fmul 10 (3152519739159347 / 4503599627370496) = 7"
proof -
  let ?x = "10 * (3152519739159347 / 4503599627370496) :: real"
  have b: "2 powr real_of_int 2 \<le> ?x" "?x < 2 powr real_of_int (2 + 1)"
    using powr_pos_int [of 2] powr_pos_int [of 3] by simp_all
  have e: "(2::real) powr real_of_int (2 - 52) = 1 / 2 ^ 50"
    using powr_neg_int [of 50] by simp
  have q: "?x / (1 / 2 ^ 50) = 15762598695796735 / 2" by simp
  have f: "\<lfloor>15762598695796735 / 2 :: real\<rfloor> = 7881299347898367"
    by (simp add: floor_eq_iff)
  have r: "round_even (15762598695796735 / 2) = 7881299347898368"
    by (simp add: round_even_def f)
  show ?thesis
    unfolding fmul_def to_double_binade [OF b] e q r by simp
qed

lemma fmul_30_07: "fmul 30 (3152519739159347 / 4503599627370496) = 21"
proof -
  let ?x = "30 * (3152519739159347 / 4503599627370496) :: real"
  have b: "2 powr real_of_int 4 \<le> ?x" "?x < 2 powr real_of_int (4 + 1)"
    using powr_pos_int [of 4] powr_pos_int [of 5] by simp_all
  have e: "(2::real) powr real_of_int (4 - 52) = 1 / 2 ^ 48"
    using powr_neg_int [of 48] by simp
  have q: "?x / (1 / 2 ^ 48) = 47287796087390205 / 8" by simp
  have f: "\<lfloor>47287796087390205 / 8 :: real\<rfloor> = 5910974510923775"
    by (simp add: floor_eq_iff)
  have r: "round_even (47287796087390205 / 8) = 5910974510923776"
    by (simp add: round_even_def f)
  show ?thesis
    unfolding fmul_def to_double_binade [OF b] e q r by simp
qed

section \<open>Properties of the pipeline\<close>

lemma try_block_invalid:
  assumes "renderAsPromise env = None \<or>
     (case parse_selector env (injectSelector opts) of
        None \<Rightarrow> True
      | Some p \<Rightarrow> querySelector p [] doc = None) \<or>
     format opts \<notin> set ImageFormat \<or> output_kind opts \<notin> set ImageOutput"
  shows "\<exists>e. try_block env doc element opts = (doc, [], Throw e)"
proof (cases "renderAsPromise env")
  case None
  then show ?thesis by (simp add: try_block_def)
next
  case (Some render)
  show ?thesis
  proof (cases "parse_selector env (injectSelector opts)")
    case None
    with Some show ?thesis by (simp add: try_block_def)
  next
    case p: (Some p)
    show ?thesis
    proof (cases "querySelector p [] doc")
      case None
      with Some p show ?thesis by (simp add: try_block_def)
    next
      case q: (Some x)
      obtain ctx injectorRoot where x: "x = (ctx, injectorRoot)" by (cases x)
      from assms Some p q have "format opts \<notin> set ImageFormat \<or> output_kind opts \<notin> set ImageOutput"
        by simp
      with Some p q x show ?thesis by (auto simp: try_block_def)
    qed
  qed
qed

lemma canvas_dimension_floor:
  assumes "0 \<le> x" "x < 2147483648"
  shows "canvas_dimension d x = nat \<lfloor>x\<rfloor>"
proof -
  have 1: "0 \<le> \<lfloor>x\<rfloor>" using assms(1) by simp
  have 2: "\<lfloor>x\<rfloor> < 2147483648" using assms(2) by (simp add: floor_less_iff)
  then have "\<lfloor>x\<rfloor> mod 4294967296 = \<lfloor>x\<rfloor>" using 1 by simp
  then have "to_unsigned_long x = nat \<lfloor>x\<rfloor>"
    using assms(1) by (simp add: to_unsigned_long_def)
  moreover have "\<not> 2147483647 < nat \<lfloor>x\<rfloor>" using 1 2 by linarith
  ultimately show ?thesis by (simp add: canvas_dimension_def Let_def)
qed

lemma copyToCanvas_never:
  assumes "getContext env" "image_src (serializeToString env source) = Inr src" "\<not> decodes env src"
  shows "copyToCanvas env source k = Inr NeverSettles"
  using assms by (simp add: copyToCanvas_def Let_def)

text \<open>The sample run, step by step.\<close>

lemma demo_encode: "encodeURIComponent (ascii ''<svg/>'') = Inr (ascii ''%3Csvg%2F%3E'')"
  by (simp add: ascii_def uri_unescaped_def is_high_surrogate_def is_low_surrogate_def
      utf8_encode_cp_def percent_octet_def hex_upper_def)

lemma demo_unescape: "unescape (ascii ''%3Csvg%2F%3E'') = ascii ''<svg/>''"
  by (simp add: ascii_def is_hex_def hex_value_def digit_value_def)

lemma demo_btoa: "btoa (ascii ''<svg/>'') = Inr (ascii ''PHN2Zy8+'')"
  by (simp add: ascii_def btoa_def b64_def)

lemma demo_image_src:
  "image_src (ascii ''<svg/>'') = Inr (ascii ''data:image/svg+xml;base64,PHN2Zy8+'')"
  by (simp add: image_src_def demo_encode demo_unescape demo_btoa) (simp add: ascii_def)

lemma demo_find_body:
  "querySelector (\<lambda>c d. tag (el d) = ''body'') [] (demo_doc_with []) =
     Some ([Frame (plain ''html'') [] [], Frame (plain ''#document'') [] []], Node 2 (plain ''body'') [])"
  by (simp add: querySelector_def querySelectorAll_def demo_doc_with_def plain_def)

lemma demo_get_container:
  "getInjectorContainer (Node 2 (plain ''body'') []) ''10000000-1000-4000-8000-100000000000'' 10 =
     (Node 2 (plain ''body'') [demo_container []], demo_container [])"
  by (simp add: getInjectorContainer_def demo_container_def Let_def)

lemma demo_find_svg:
  "querySelector svg_tag
     [Frame (plain ''body'') [] [], Frame (plain ''html'') [] [], Frame (plain ''#document'') [] []]
     (demo_container [demo_rendered]) =
   Some ([Frame (el (demo_container [])) [] [], Frame (plain ''body'') [] [],
          Frame (plain ''html'') [] [], Frame (plain ''#document'') [] []], demo_rendered)"
  by (simp add: querySelector_def querySelectorAll_def svg_tag_def demo_container_def
      demo_rendered_def plain_def)

lemma demo_normalise:
  "normaliseSvg demo_selector ctx demo_rendered [] = (demo_styled, None)"
  by (simp add: normaliseSvg_def demo_rendered_def demo_styled_def plain_def)

lemma demo_normalise_invalid:
  "normaliseSvg demo_selector ctx demo_rendered [[]] = (demo_rendered, Some SyntaxError)"
  by (simp add: normaliseSvg_def demo_selector_tags)

lemma demo_normalise_partial:
  "normaliseSvg demo_selector ctx demo_rendered [''circle'', []] =
     (Node 20 (el demo_rendered) [], Some SyntaxError)"
  by (simp add: normaliseSvg_def demo_selector_tags querySelectorAll_def demo_rendered_def plain_def)

lemma demo_remove:
  "removeInjectorContainer demo_selector ctx (Node 2 (plain ''body'') [demo_container cs])
     ''10000000-1000-4000-8000-100000000000'' =
     Inr (Node 2 (plain ''body'') [], [])"
  by (simp add: removeInjectorContainer_def demo_selector_marker_zero removeChild_def
      querySelector_def querySelectorAll_def
      marker_is_def INJECTOR_CONTAINER_ATTRIBUTE_def demo_container_def)

lemma demo_replace_svg:
  "replace_node 20 demo_styled (demo_container [demo_rendered]) = demo_container [demo_styled]"
  by (simp add: demo_container_def demo_rendered_def)

lemma demo_replace_partial:
  "replace_node 20 (Node 20 (el demo_rendered) []) (demo_container [demo_rendered]) =
     demo_container [Node 20 (el demo_rendered) []]"
  by (simp add: demo_container_def demo_rendered_def)

lemma demo_replace_same:
  "replace_node 20 demo_rendered (demo_container [demo_rendered]) = demo_container [demo_rendered]"
  by (simp add: demo_container_def demo_rendered_def)

lemma demo_replace_body:
  "replace_node 2 (Node 2 (plain ''body'') cs) (demo_doc_with []) = demo_doc_with cs"
  by (simp add: demo_doc_with_def)

lemma demo_mounted: "Node (nid (demo_container [])) (el (demo_container [])) cs = demo_container cs"
  by (simp add: demo_container_def)

lemma demo_nid: "nid demo_rendered = 20"
  by (simp add: demo_rendered_def)

lemma demo_fmul: "fmul (201 / 2) 1 = 201 / 2" "fmul 50 1 = 50" "fmul (201 / 2) 3 = 603 / 2" "fmul 50 3 = 150"
  by (simp_all add: fmul_def to_double_201_2 to_double_50 to_double_603_2 to_double_150)

lemma demo_dimensions:
  "canvas_dimension 300 (201 / 2) = 100" "canvas_dimension 150 50 = 50"
  by (simp_all add: canvas_dimension_def to_unsigned_long_def)

lemmas demo_run =
  renderSvgAsImage_def destructure_def with_defaults_def no_options_def try_block_def
  demo_env_def demo_selector_tags uuidv4_zero ImageFormat_def ImageOutput_def with_container_def rasterise_def
  copyToCanvas_def toOutput_def Let_def
  demo_find_body demo_get_container demo_find_svg demo_normalise demo_remove demo_replace_svg
  demo_replace_body demo_mounted demo_nid demo_image_src demo_doc_def demo_fmul demo_dimensions

text \<open>
  Claim C10.  A call that passes the element alone ends with the TypeError of the
  parameter pattern, whatever the browser and the document are: the body and its
  \<^verbatim>\<open>try\<close> are never entered, nothing is logged, the document is untouched, and no
  \<^verbatim>\<open>throwErrors\<close> value exists that could turn the error into an empty string.
\<close>

theorem renderSvgAsImage_no_options:
  "renderSvgAsImage env doc element None =
     \<lparr>document = doc, console = [], returned = RejectedP TypeError\<rparr>"
  by (simp add: renderSvgAsImage_def destructure_def)

text \<open>The sample run succeeds: the data URL is returned and the document is as it was.\<close>

lemma demo_success:
  "renderSvgAsImage demo_env demo_doc ''el'' (Some no_options) =
     \<lparr>document = demo_doc, console = [],
      returned = Fulfilled (Str (ascii ''data:image/png;base64,AAAA''))\<rparr>"
  by (simp add: demo_run)

text \<open>
  Claim C7.  When no renderer is registered, or the inject selector is no selector or
  finds no element, or the format or the output is none of the enumerated values, the
  \<^verbatim>\<open>try\<close> block throws with the document as it was and nothing logged: the container
  is not created.  The error is then the rejection of the returned promise, or with
  \<^verbatim>\<open>throwErrors = false\<close> it is logged and the promise resolves to the empty string.
\<close>

theorem validation_before_mutation:
  assumes "renderAsPromise env = None \<or>
     (case parse_selector env (injectSelector (with_defaults raw)) of
        None \<Rightarrow> True
      | Some p \<Rightarrow> querySelector p [] doc = None) \<or>
     format (with_defaults raw) \<notin> set ImageFormat \<or>
     output_kind (with_defaults raw) \<notin> set ImageOutput"
  shows "\<exists>e. try_block env doc element (with_defaults raw) = (doc, [], Throw e) \<and>
           document (renderSvgAsImage env doc element (Some raw)) = doc \<and>
           returned (renderSvgAsImage env doc element (Some raw)) =
             (if throwErrors (with_defaults raw) then RejectedP e else Fulfilled (Str []))"
proof -
  from try_block_invalid [OF assms] obtain e where
    e: "try_block env doc element (with_defaults raw) = (doc, [], Throw e)" by blast
  then show ?thesis
    by (simp add: renderSvgAsImage_def destructure_def)
qed

theorem validation_before_mutation_witness:
  "renderAsPromise (demo_env\<lparr>renderAsPromise := None\<rparr>) = None \<and>
   document (renderSvgAsImage (demo_env\<lparr>renderAsPromise := None\<rparr>) demo_doc ''el'' (Some no_options)) = demo_doc \<and>
   (\<exists>e. returned (renderSvgAsImage (demo_env\<lparr>renderAsPromise := None\<rparr>) demo_doc ''el'' (Some no_options)) =
      RejectedP e) \<and>
   parse_selector demo_env (injectSelector (with_defaults (no_options\<lparr>opt_injectSelector := Some ''aside''\<rparr>))) =
     Some (\<lambda>c d. tag (el d) = ''aside'') \<and>
   querySelector (\<lambda>c d. tag (el d) = ''aside'') [] demo_doc = None \<and>
   document (renderSvgAsImage demo_env demo_doc ''el''
     (Some (no_options\<lparr>opt_injectSelector := Some ''aside''\<rparr>))) = demo_doc \<and>
   format (with_defaults (no_options\<lparr>opt_format := Some ''gif'', opt_throwErrors := Some False\<rparr>)) \<notin> set ImageFormat \<and>
   document (renderSvgAsImage demo_env demo_doc ''el''
     (Some (no_options\<lparr>opt_format := Some ''gif'', opt_throwErrors := Some False\<rparr>))) = demo_doc \<and>
   returned (renderSvgAsImage demo_env demo_doc ''el''
     (Some (no_options\<lparr>opt_format := Some ''gif'', opt_throwErrors := Some False\<rparr>))) = Fulfilled (Str []) \<and>
   output_kind (with_defaults (no_options\<lparr>opt_output := Some ''file''\<rparr>)) \<notin> set ImageOutput \<and>
   document (renderSvgAsImage demo_env demo_doc ''el''
     (Some (no_options\<lparr>opt_output := Some ''file''\<rparr>))) = demo_doc"
proof -
  have a: "renderAsPromise (demo_env\<lparr>renderAsPromise := None\<rparr>) = None" by simp
  have t: "throwErrors (with_defaults no_options)"
    by (simp add: with_defaults_def no_options_def)
  have b1: "parse_selector demo_env (injectSelector (with_defaults (no_options\<lparr>opt_injectSelector := Some ''aside''\<rparr>))) =
     Some (\<lambda>c d. tag (el d) = ''aside'')"
    by (simp add: demo_env_def with_defaults_def no_options_def demo_selector_tags)
  have b2: "querySelector (\<lambda>c d. tag (el d) = ''aside'') [] demo_doc = None"
    by (simp add: querySelector_def querySelectorAll_def demo_doc_def demo_doc_with_def plain_def)
  have c: "format (with_defaults (no_options\<lparr>opt_format := Some ''gif'', opt_throwErrors := Some False\<rparr>)) \<notin> set ImageFormat"
    by (simp add: with_defaults_def no_options_def ImageFormat_def)
  have c': "\<not> throwErrors (with_defaults (no_options\<lparr>opt_format := Some ''gif'', opt_throwErrors := Some False\<rparr>))"
    by (simp add: with_defaults_def no_options_def)
  have d: "output_kind (with_defaults (no_options\<lparr>opt_output := Some ''file''\<rparr>)) \<notin> set ImageOutput"
    by (simp add: with_defaults_def no_options_def ImageOutput_def)
  have A: "document (renderSvgAsImage (demo_env\<lparr>renderAsPromise := None\<rparr>) demo_doc ''el'' (Some no_options)) = demo_doc \<and>
      (\<exists>e. returned (renderSvgAsImage (demo_env\<lparr>renderAsPromise := None\<rparr>) demo_doc ''el'' (Some no_options)) = RejectedP e)"
    using validation_before_mutation [where env = "demo_env\<lparr>renderAsPromise := None\<rparr>" and raw = no_options and doc = demo_doc and element = "''el''"] a t
    by auto
  have B: "document (renderSvgAsImage demo_env demo_doc ''el''
     (Some (no_options\<lparr>opt_injectSelector := Some ''aside''\<rparr>))) = demo_doc"
    using validation_before_mutation [where env = demo_env and raw = "no_options\<lparr>opt_injectSelector := Some ''aside''\<rparr>" and doc = demo_doc and element = "''el''"] b1 b2
    by auto
  have C: "document (renderSvgAsImage demo_env demo_doc ''el''
       (Some (no_options\<lparr>opt_format := Some ''gif'', opt_throwErrors := Some False\<rparr>))) = demo_doc \<and>
     returned (renderSvgAsImage demo_env demo_doc ''el''
       (Some (no_options\<lparr>opt_format := Some ''gif'', opt_throwErrors := Some False\<rparr>))) = Fulfilled (Str [])"
    using validation_before_mutation [where env = demo_env and raw = "no_options\<lparr>opt_format := Some ''gif'', opt_throwErrors := Some False\<rparr>" and doc = demo_doc and element = "''el''"] c c'
    by auto
  have D: "document (renderSvgAsImage demo_env demo_doc ''el''
     (Some (no_options\<lparr>opt_output := Some ''file''\<rparr>))) = demo_doc"
    using validation_before_mutation [where env = demo_env and raw = "no_options\<lparr>opt_output := Some ''file''\<rparr>" and doc = demo_doc and element = "''el''"] d
    by auto
  from a A b1 b2 B c C d D show ?thesis by blast
qed

text \<open>
  Claim C4, as the code has it.  When \<^verbatim>\<open>copyToCanvas\<close> produces a canvas, for a bounding box
  of non-negative width and height and a positive scale with products below \<open>2\<^sup>3\<^sup>1\<close>, the
  pixel width and height are the products of the box and the scale, as double precision
  computes them, rounded down (the assignment truncates), and the style width and height
  are the width and height of the box in pixels, unscaled.
\<close>

theorem copyToCanvas_dimensions:
  assumes "getContext env" "image_src (serializeToString env source) = Inr src" "decodes env src"
    and "getBoundingClientRect env source = (w, h)" "0 \<le> w" "0 \<le> h" "0 < k"
    and "fmul w k < 2147483648" "fmul h k < 2147483648"
  shows "\<exists>c. copyToCanvas env source k = Inr (Fulfilled c) \<and>
           width c = nat \<lfloor>fmul w k\<rfloor> \<and> height c = nat \<lfloor>fmul h k\<rfloor> \<and>
           style_width c = Some (Px w) \<and> style_height c = Some (Px h)"
proof -
  have "0 \<le> w * k" "0 \<le> h * k" using assms(5-7) by simp_all
  then have "0 \<le> fmul w k" "0 \<le> fmul h k"
    by (simp_all add: fmul_def to_double_nonneg)
  then have "canvas_dimension 300 (fmul w k) = nat \<lfloor>fmul w k\<rfloor>"
    "canvas_dimension 150 (fmul h k) = nat \<lfloor>fmul h k\<rfloor>"
    using assms(8,9) by (simp_all add: canvas_dimension_floor)
  with assms(1-4) show ?thesis
    by (simp add: copyToCanvas_def Let_def)
qed

theorem copyToCanvas_dimensions_witness:
  "getContext demo_env \<and>
   image_src (serializeToString demo_env demo_styled) = Inr (ascii ''data:image/svg+xml;base64,PHN2Zy8+'') \<and>
   decodes demo_env (ascii ''data:image/svg+xml;base64,PHN2Zy8+'') \<and>
   getBoundingClientRect demo_env demo_styled = (201 / 2, 50) \<and>
   (0::real) \<le> 201 / 2 \<and> (0::real) \<le> 50 \<and> (0::real) < 3 \<and>
   fmul (201 / 2) 3 = 603 / 2 \<and> fmul 50 3 = 150 \<and>
   (\<exists>c. copyToCanvas demo_env demo_styled 3 = Inr (Fulfilled c) \<and>
      width c = 301 \<and> height c = 150 \<and>
      style_width c = Some (Px (201 / 2)) \<and> style_height c = Some (Px 50))"
proof -
  have h: "getContext demo_env"
    "image_src (serializeToString demo_env demo_styled) = Inr (ascii ''data:image/svg+xml;base64,PHN2Zy8+'')"
    "decodes demo_env (ascii ''data:image/svg+xml;base64,PHN2Zy8+'')"
    "getBoundingClientRect demo_env demo_styled = (201 / 2, 50)"
    by (simp_all add: demo_env_def demo_image_src)
  have n: "(0::real) \<le> 201 / 2" "(0::real) \<le> 50" "(0::real) < 3"
    by simp_all
  have m: "fmul (201 / 2) 3 < 2147483648" "fmul 50 3 < 2147483648"
    by (simp_all add: demo_fmul)
  have f: "nat \<lfloor>fmul (201 / 2) 3\<rfloor> = 301" "nat \<lfloor>fmul 50 3\<rfloor> = 150"
    by (simp_all add: demo_fmul)
  from copyToCanvas_dimensions [OF h n m] show ?thesis
    unfolding f using h n demo_fmul(3,4) by blast
qed

text \<open>
  Claim C4 as stated fails for a box 100.5 wide at scale 1: the canvas is 100 pixels
  wide, the ceiling is 101.  Both numbers are exact in double precision.
\<close>

theorem copyToCanvas_ceiling_counterexample:
  "copyToCanvas demo_env demo_styled 1 =
     Inr (Fulfilled \<lparr>width = 100, height = 50,
            style_width = Some (Px (201 / 2)), style_height = Some (Px 50),
            ctxt_scale = (1, 1),
            drawn = Some (ascii ''data:image/svg+xml;base64,PHN2Zy8+'')\<rparr>) \<and>
   nat \<lceil>(201 / 2 :: real) * 1\<rceil> = 101"
  by (simp add: copyToCanvas_def demo_env_def demo_image_src demo_fmul demo_dimensions Let_def)

text \<open>
  The product is the product of doubles, not of reals.  The double next to 0.7 is
  \<open>3152519739159347 / 2\<^sup>5\<^sup>2\<close>, a little below 0.7.  A box 10 by 30 at this scale gives a
  canvas 7 by 21, since the products round to 7 and to 21; the exact products lie below
  7 and below 21.
\<close>

lemma copyToCanvas_rounds_product:
  "copyToCanvas (demo_env\<lparr>getBoundingClientRect := (\<lambda>n. (10, 30))\<rparr>) demo_styled
       (3152519739159347 / 4503599627370496) =
     Inr (Fulfilled \<lparr>width = 7, height = 21,
            style_width = Some (Px 10), style_height = Some (Px 30),
            ctxt_scale = (3152519739159347 / 4503599627370496, 3152519739159347 / 4503599627370496),
            drawn = Some (ascii ''data:image/svg+xml;base64,PHN2Zy8+'')\<rparr>) \<and>
   nat \<lfloor>10 * (3152519739159347 / 4503599627370496 :: real)\<rfloor> = 6 \<and>
   nat \<lfloor>30 * (3152519739159347 / 4503599627370496 :: real)\<rfloor> = 20"
proof -
  have "canvas_dimension 300 7 = 7" "canvas_dimension 150 21 = 21"
    by (simp_all add: canvas_dimension_def to_unsigned_long_def)
  moreover have "\<lfloor>10 * (3152519739159347 / 4503599627370496 :: real)\<rfloor> = 6"
    "\<lfloor>30 * (3152519739159347 / 4503599627370496 :: real)\<rfloor> = 20"
    by (simp_all add: floor_eq_iff)
  ultimately show ?thesis
    by (simp add: copyToCanvas_def demo_env_def demo_image_src fmul_10_07 fmul_30_07 Let_def)
qed

text \<open>
  Claim C2 fails on the code.  \<^verbatim>\<open>copyToCanvas\<close> installs \<^verbatim>\<open>img.onload\<close> and nothing for a
  failed load, and its promise has no way to reject.  In the sample browser when no image
  loads, the promise of \<^verbatim>\<open>copyToCanvas\<close> never settles and neither does the promise that
  \<^verbatim>\<open>renderSvgAsImage\<close> returned, with \<^verbatim>\<open>throwErrors\<close> true or false: no decode error is
  raised, nothing is logged, and the container with the rendered \<^verbatim>\<open>svg\<close> stays in the
  document.
\<close>

theorem decode_failure_hangs:
  "copyToCanvas (demo_env\<lparr>decodes := (\<lambda>src. False)\<rparr>) demo_styled 1 = Inr NeverSettles \<and>
   renderSvgAsImage (demo_env\<lparr>decodes := (\<lambda>src. False)\<rparr>) demo_doc ''el'' (Some no_options) =
     \<lparr>document = demo_doc_with [demo_container [demo_styled]], console = [],
      returned = NeverSettles\<rparr> \<and>
   renderSvgAsImage (demo_env\<lparr>decodes := (\<lambda>src. False)\<rparr>) demo_doc ''el''
       (Some (no_options\<lparr>opt_throwErrors := Some False\<rparr>)) =
     \<lparr>document = demo_doc_with [demo_container [demo_styled]], console = [],
      returned = NeverSettles\<rparr>"
  by (simp add: demo_run)

text \<open>
  Claim C1 fails on the code.  In the sample browser without a 2d context the run ends
  with the rejection \<^verbatim>\<open>Could not get canvas context\<close> and the container, with the
  rendered and styled \<^verbatim>\<open>svg\<close> in it, is still a child of the body.  The same holds
  when the serialized text is an unpaired surrogate (URIError from
  \<^verbatim>\<open>encodeURIComponent\<close>) and when the list of selectors holds the empty string
  (SyntaxError from \<^verbatim>\<open>querySelectorAll\<close>).
\<close>

theorem container_left_behind:
  "renderSvgAsImage (demo_env\<lparr>getContext := False\<rparr>) demo_doc ''el'' (Some no_options) =
     \<lparr>document = demo_doc_with [demo_container [demo_styled]], console = [],
      returned = RejectedP (Error ''Could not get canvas context'')\<rparr> \<and>
   renderSvgAsImage (demo_env\<lparr>serializeToString := (\<lambda>n. [55357])\<rparr>) demo_doc ''el'' (Some no_options) =
     \<lparr>document = demo_doc_with [demo_container [demo_styled]], console = [],
      returned = RejectedP URIError\<rparr> \<and>
   renderSvgAsImage demo_env demo_doc ''el''
       (Some (no_options\<lparr>opt_ignoreAllSelectors := Some [[]]\<rparr>)) =
     \<lparr>document = demo_doc_with [demo_container [demo_rendered]], console = [],
      returned = RejectedP SyntaxError\<rparr>"
  by (simp add: demo_run lone_surrogate_src demo_normalise_invalid demo_replace_same)

text \<open>
  When a later selector of the list is invalid, what the earlier selectors removed stays
  removed: with the selectors \<^verbatim>\<open>circle\<close> and the empty string the run is rejected with a
  SyntaxError and the \<^verbatim>\<open>svg\<close> left in the document has lost its circle.
\<close>

lemma partial_removal_kept:
  "renderSvgAsImage demo_env demo_doc ''el''
       (Some (no_options\<lparr>opt_ignoreAllSelectors := Some [''circle'', []]\<rparr>)) =
     \<lparr>document = demo_doc_with [demo_container [Node 20 (el demo_rendered) []]], console = [],
      returned = RejectedP SyntaxError\<rparr>"
  by (simp add: demo_run demo_normalise_partial demo_replace_partial)

text \<open>
  Claim C3 fails on the code.  In the sample browser whose \<^verbatim>\<open>toBlob\<close> yields no blob, a
  call with output \<^verbatim>\<open>blob\<close> and \<^verbatim>\<open>throwErrors = false\<close> returns a promise that is rejected
  with \<^verbatim>\<open>Could not convert canvas to blob\<close>; nothing is logged and the empty string is
  not returned.
\<close>

theorem encoding_failure_not_suppressed:
  "renderSvgAsImage (demo_env\<lparr>toBlob := (\<lambda>c t q. None)\<rparr>) demo_doc ''el''
     (Some (no_options\<lparr>opt_output := Some ''blob'', opt_throwErrors := Some False\<rparr>)) =
     \<lparr>document = demo_doc, console = [],
      returned = RejectedP (Error ''Could not convert canvas to blob'')\<rparr>"
  by (simp add: demo_run)




end
